theory Spec2Isabelle
  imports Complex_Main "HOL-Library.List_Lexorder" "HOL-Library.Char_ord"
begin

section \<open>Python values\<close>

text \<open>
  Exceptions are values. \<open>Raised msg\<close> stands for an exception raised inside a library
  call (the embedding model, the Endee client), carrying \<open>str(e)\<close>.
\<close>

datatype exn =
    ValueError string
  | KeyError string
  | AttributeError string
  | TypeError string
  | OSError string
  | UnicodeDecodeError
  | Raised string

text \<open>\<open>str(e)\<close>; the message of a decoding error is abridged.\<close>

fun str_exn :: "exn \<Rightarrow> string" where
  "str_exn (ValueError m) = m"
| "str_exn (KeyError m) = m"
| "str_exn (AttributeError m) = m"
| "str_exn (TypeError m) = m"
| "str_exn (OSError m) = m"
| "str_exn UnicodeDecodeError = ''invalid utf-8''"
| "str_exn (Raised m) = m"

text \<open>
  A Python float is modelled by the rational number it denotes exactly, so \<open><\<close> on
  floats is \<open><\<close> on rationals. The values a verdict dictionary holds are strings,
  floats and booleans; the dictionary itself is a list of key/value pairs in insertion
  order.
\<close>

datatype pyval = S string | F rat | B bool

type_synonym pydict = "(string \<times> pyval) list"

text \<open>\<open>d[k] = v\<close>: an existing key keeps its place, a new key goes last.\<close>

fun dict_set :: "'k \<Rightarrow> 'v \<Rightarrow> ('k \<times> 'v) list \<Rightarrow> ('k \<times> 'v) list" where
  "dict_set k v [] = [(k, v)]"
| "dict_set k v (p # ps) = (if fst p = k then (k, v) # ps else p # dict_set k v ps)"

text \<open>
  \<open>round(x, n)\<close> on a float rounds the exact value of \<open>x\<close> to \<open>n\<close> decimal places, ties to
  even; the float returned is the one nearest to that decimal, which is how the value
  prints. The model keeps the decimal.
\<close>

definition round_half_even :: "rat \<Rightarrow> int" where
  "round_half_even x =
     (let f = \<lfloor>x\<rfloor>; d = x - of_int f
      in if d < 1 / 2 then f else if 1 / 2 < d then f + 1 else if even f then f else f + 1)"

definition py_round :: "rat \<Rightarrow> nat \<Rightarrow> rat" where
  "py_round x n = of_int (round_half_even (x * 10 ^ n)) / 10 ^ n"

text \<open>
  \<open>int(s)\<close> for a string of ASCII characters: surrounding whitespace is stripped, one sign
  is allowed, and the digits may be separated by single underscores. Anything else raises
  ValueError (\<open>None\<close> here). The bound that recent interpreters put on the number of
  digits is left out.
\<close>

definition is_space_char :: "char \<Rightarrow> bool" where
  "is_space_char c = (c \<in> set [CHR '' '', CHR 0x09, CHR 0x0A, CHR 0x0B, CHR 0x0C, CHR 0x0D,
     CHR 0x1C, CHR 0x1D, CHR 0x1E, CHR 0x1F])"

definition is_digit_char :: "char \<Rightarrow> bool" where
  "is_digit_char c = (CHR ''0'' \<le> c \<and> c \<le> CHR ''9'')"

definition digit_val :: "char \<Rightarrow> nat" where
  "digit_val c = of_char c - of_char CHR ''0''"

fun digits_val :: "string \<Rightarrow> nat \<Rightarrow> nat option" where
  "digits_val [] acc = None"
| "digits_val [c] acc = (if is_digit_char c then Some (10 * acc + digit_val c) else None)"
| "digits_val (c # d # ds) acc =
     (if \<not> is_digit_char c then None
      else if d = CHR ''_'' then digits_val ds (10 * acc + digit_val c)
      else digits_val (d # ds) (10 * acc + digit_val c))"

definition strip :: "string \<Rightarrow> string" where
  "strip s = rev (dropWhile is_space_char (rev (dropWhile is_space_char s)))"

definition py_int :: "string \<Rightarrow> int option" where
  "py_int s =
     (case strip s of
        [] \<Rightarrow> None
      | c # cs \<Rightarrow>
          if c = CHR ''+'' then map_option int (digits_val cs 0)
          else if c = CHR ''-'' then map_option (\<lambda>n. - int n) (digits_val cs 0)
          else map_option int (digits_val (c # cs) 0))"

section \<open>Compatibility checker\<close>

subsection \<open>Configuration\<close>

text \<open>
  The similarity thresholds are the floats written \<open>0.85\<close> and \<open>0.95\<close> in the source:
  the doubles nearest to these decimals, given here by their exact values.
\<close>

definition BREAKING_THRESHOLD :: rat where
  "BREAKING_THRESHOLD = 7656119366529843 / 9007199254740992"

definition MINOR_THRESHOLD :: rat where
  "MINOR_THRESHOLD = 4278419646001971 / 4503599627370496"

subsection \<open>Migration guides\<close>

text \<open>
  The dictionary \<open>MIGRATION_GUIDES\<close>: API call, then version, then the fields
  \<open>replacement\<close> and \<open>guide\<close>. The text of each guide is a constant of its own.
\<close>

definition guide_ReactDOM_render_18 :: string where
  "guide_ReactDOM_render_18 =
     ''\<newline>  Replace ReactDOM.render() with createRoot().render():\<newline>\<newline>  BEFORE (React 17):\<newline>    import ReactDOM from 'react-dom';\<newline>    ReactDOM.render(<App />, document.getElementById('root'));\<newline>\<newline>  AFTER (React 18):\<newline>    import { createRoot } from 'react-dom/client';\<newline>    const root = createRoot(document.getElementById('root'));\<newline>    root.render(<App />);\<newline>\<newline>  Reference: https://react.dev/blog/2022/03/08/react-18-upgrade-guide\<newline>''"

definition guide_ReactDOM_hydrate_18 :: string where
  "guide_ReactDOM_hydrate_18 =
     ''\<newline>  Replace ReactDOM.hydrate() with hydrateRoot():\<newline>\<newline>  BEFORE (React 17):\<newline>    import ReactDOM from 'react-dom';\<newline>    ReactDOM.hydrate(<App />, document.getElementById('root'));\<newline>\<newline>  AFTER (React 18):\<newline>    import { hydrateRoot } from 'react-dom/client';\<newline>    hydrateRoot(document.getElementById('root'), <App />);\<newline>\<newline>  Reference: https://react.dev/blog/2022/03/08/react-18-upgrade-guide\<newline>''"

definition guide_ReactDOM_unmountComponentAtNode_18 :: string where
  "guide_ReactDOM_unmountComponentAtNode_18 =
     ''\<newline>  Replace ReactDOM.unmountComponentAtNode() with root.unmount():\<newline>\<newline>  BEFORE (React 17):\<newline>    import ReactDOM from 'react-dom';\<newline>    ReactDOM.unmountComponentAtNode(container);\<newline>\<newline>  AFTER (React 18):\<newline>    // Keep a reference to the root\<newline>    const root = createRoot(container);\<newline>    root.render(<App />);\<newline>    // Later, to unmount:\<newline>    root.unmount();\<newline>\<newline>  Reference: https://react.dev/blog/2022/03/08/react-18-upgrade-guide\<newline>''"

definition guide_ReactDOM_findDOMNode_18 :: string where
  "guide_ReactDOM_findDOMNode_18 =
     ''\<newline>  ReactDOM.findDOMNode() is deprecated in StrictMode in React 18.\<newline>  Use React.createRef() or useRef() instead:\<newline>\<newline>  BEFORE (React 17):\<newline>    class MyComponent extends React.Component {\<newline>      componentDidMount() {\<newline>        const node = ReactDOM.findDOMNode(this);\<newline>      }\<newline>    }\<newline>\<newline>  AFTER (React 18):\<newline>    class MyComponent extends React.Component {\<newline>      constructor(props) {\<newline>        super(props);\<newline>        this.myRef = React.createRef();\<newline>      }\<newline>      render() {\<newline>        return <div ref={this.myRef} />;\<newline>      }\<newline>    }\<newline>''"

definition MIGRATION_GUIDES :: "(string \<times> (string \<times> (string \<times> string) list) list) list" where
  "MIGRATION_GUIDES = [
    (''ReactDOM.render'', [
      (''18'', [
        (''replacement'', ''createRoot''),
        (''guide'', guide_ReactDOM_render_18)])]),
    (''ReactDOM.hydrate'', [
      (''18'', [
        (''replacement'', ''hydrateRoot''),
        (''guide'', guide_ReactDOM_hydrate_18)])]),
    (''ReactDOM.unmountComponentAtNode'', [
      (''18'', [
        (''replacement'', ''root.unmount()''),
        (''guide'', guide_ReactDOM_unmountComponentAtNode_18)])]),
    (''ReactDOM.findDOMNode'', [
      (''18'', [
        (''replacement'', ''useRef / createRef''),
        (''guide'', guide_ReactDOM_findDOMNode_18)])])]"

text \<open>The table of descriptions in \<open>_build_context\<close>.\<close>

definition contexts :: "(string \<times> string) list" where
  "contexts = [
    (''ReactDOM.render'',
      ''ReactDOM.render: Render a React element into the DOM in the supplied container. Takes element, container, optional callback. Returns void.''),
    (''ReactDOM.hydrate'',
      ''ReactDOM.hydrate: Hydrate server-rendered HTML content with React. Attach event listeners to existing markup. Takes element, container, optional callback.''),
    (''ReactDOM.unmountComponentAtNode'',
      ''ReactDOM.unmountComponentAtNode: Remove a mounted React component from the DOM and clean up event handlers and state.''),
    (''ReactDOM.findDOMNode'',
      ''ReactDOM.findDOMNode: Find the browser DOM node for a mounted React component instance.''),
    (''ReactDOM.createPortal'',
      ''ReactDOM.createPortal: Render children into a DOM node outside the parent component hierarchy.''),
    (''useState'',
      ''useState: Declare a state variable in a functional React component. Returns state value and setter function.''),
    (''useEffect'',
      ''useEffect: Perform side effects in functional components. Runs after render. Accepts cleanup function.''),
    (''useContext'',
      ''useContext: Read and subscribe to context from a React component.''),
    (''useReducer'',
      ''useReducer: Manage complex state logic with a reducer function in React.''),
    (''useCallback'',
      ''useCallback: Memoize a callback function to prevent unnecessary re-renders.''),
    (''useMemo'',
      ''useMemo: Memoize an expensive computation result between re-renders.''),
    (''useRef'',
      ''useRef: Create a mutable ref object that persists across renders.''),
    (''useLayoutEffect'',
      ''useLayoutEffect: Fire effect synchronously after DOM mutations for layout reading.''),
    (''useImperativeHandle'',
      ''useImperativeHandle: Customize ref instance value exposed to parent components.''),
    (''useDebugValue'',
      ''useDebugValue: Display label for custom hooks in React DevTools.''),
    (''React.Component'',
      ''React.Component: Base class for class-based React components with lifecycle methods and state.''),
    (''React.PureComponent'',
      ''React.PureComponent: React component with shallow prop and state comparison for performance.''),
    (''React.Fragment'',
      ''React.Fragment: Group children without adding extra DOM nodes.''),
    (''React.Suspense'',
      ''React.Suspense: Display fallback while waiting for lazy-loaded children.''),
    (''React.StrictMode'',
      ''React.StrictMode: Development tool for highlighting potential problems in React app.''),
    (''React.createElement'',
      ''React.createElement: Create a new React element of the given type with props and children.''),
    (''React.cloneElement'',
      ''React.cloneElement: Clone a React element with merged props.''),
    (''React.createRef'',
      ''React.createRef: Create a ref to attach to React elements for DOM access.''),
    (''React.forwardRef'',
      ''React.forwardRef: Forward ref to a child component.''),
    (''React.memo'',
      ''React.memo: Memoize a component to skip re-rendering when props are unchanged.''),
    (''React.lazy'',
      ''React.lazy: Define a dynamically loaded component for code splitting.''),
    (''React.createContext'',
      ''React.createContext: Create a context for passing data through component tree.''),
    (''React.Profiler'',
      ''React.Profiler: Measure rendering performance of React components.''),
    (''React.Children.map'',
      ''React.Children.map: Iterate over children elements with a function.''),
    (''React.isValidElement'',
      ''React.isValidElement: Check if an object is a valid React element.''),
    (''createRoot'',
      ''createRoot: Create a concurrent React root for rendering. New React 18 API.''),
    (''hydrateRoot'',
      ''hydrateRoot: Create a root for hydrating server-rendered content. New React 18 API.'')]"

subsection \<open>The match provider\<close>

text \<open>
  A candidate is one element of the list \<open>index.query\<close> returns: a dictionary with the
  keys \<open>similarity\<close> and \<open>meta\<close>, the latter a dictionary again. A key that may be absent
  is an option.
\<close>

record match_meta =
  meta_function :: "string option"
  meta_deprecated :: "bool option"
  meta_migrateTo :: "string option"
  meta_replaces :: "string option"

record candidate =
  cand_similarity :: "rat option"
  cand_meta :: "match_meta option"

definition empty_meta :: match_meta where
  "empty_meta = \<lparr>meta_function = None, meta_deprecated = None, meta_migrateTo = None,
     meta_replaces = None\<rparr>"

text \<open>The arguments of one \<open>index.query\<close> call; \<open>'v\<close> is the type of embedding vectors.\<close>

record 'v query =
  q_vector :: 'v
  q_top_k :: nat
  q_library :: string
  q_version :: int
  q_include_vectors :: bool

text \<open>
  The collaborators of the checker. \<open>encode\<close> is the embedding engine (called outside
  the \<open>try\<close>, so what it raises propagates). \<open>index_query\<close> is the Endee index: from its
  state and a query it gives the ranked candidates or the message of the exception it
  raised, and its next state. \<open>fmul\<close> is the product of two floats.
\<close>

record ('v, 'p) env =
  encode :: "string \<Rightarrow> exn + 'v"
  index_query :: "'p \<Rightarrow> 'v query \<Rightarrow> (string + candidate list) \<times> 'p"
  fmul :: "rat \<Rightarrow> rat \<Rightarrow> rat"

text \<open>
  The world a call runs in: the state of the provider and the queries sent to it so far,
  oldest first.
\<close>

record ('v, 'p) world =
  provider :: 'p
  queries :: "'v query list"

definition send_query ::
  "('v, 'p) env \<Rightarrow> 'v query \<Rightarrow> ('v, 'p) world \<Rightarrow> (string + candidate list) \<times> ('v, 'p) world" where
  "send_query E q w =
     (case index_query E (provider w) q of
        (r, p') \<Rightarrow> (r, \<lparr>provider = p', queries = queries w @ [q]\<rparr>))"

text \<open>
  The query \<open>check_api\<close> sends: the vector, \<open>top_k=5\<close>, the filter on library and
  version, \<open>include_vectors=False\<close>.
\<close>

definition query_of :: "'v \<Rightarrow> string \<Rightarrow> int \<Rightarrow> 'v query" where
  "query_of query_vector library new_version_num =
     \<lparr>q_vector = query_vector, q_top_k = 5, q_library = library,
      q_version = new_version_num, q_include_vectors = False\<rparr>"

subsection \<open>Classifying one API call\<close>

text \<open>
  The methods \<open>_build_context\<close>, \<open>_get_break_message\<close> and \<open>_get_migration\<close>, named
  without the underscore in front.
\<close>

definition build_context :: "string \<Rightarrow> string" where
  "build_context api_call =
     (case map_of contexts api_call of
        Some c \<Rightarrow> c
      | None \<Rightarrow> api_call @ '': React API function call'')"

definition get_break_message :: "string \<Rightarrow> string \<Rightarrow> match_meta \<Rightarrow> string" where
  "get_break_message old_api new_api meta =
     (if meta_deprecated meta = Some True then
        (let migrate_to = (case meta_migrateTo meta of Some m \<Rightarrow> m | None \<Rightarrow> new_api)
         in old_api @ '' is DEPRECATED in the new version. Use '' @ migrate_to @ '' instead.'')
      else
        (let replaces = (case meta_replaces meta of Some r \<Rightarrow> r | None \<Rightarrow> [])
         in if replaces \<noteq> [] then old_api @ '' has been replaced by '' @ new_api @ ''.''
            else old_api @ '' has significant changes in the new version (closest match: ''
              @ new_api @ '').''))"

definition get_migration :: "string \<Rightarrow> string \<Rightarrow> string" where
  "get_migration api_call new_version =
     (let guide_info =
        (case map_of MIGRATION_GUIDES api_call of
           None \<Rightarrow> []
         | Some versions \<Rightarrow> (case map_of versions new_version of None \<Rightarrow> [] | Some g \<Rightarrow> g))
      in if guide_info \<noteq> [] then
           (case map_of guide_info ''guide'' of
              Some g \<Rightarrow> g
            | None \<Rightarrow> ''No migration guide available.'')
         else ''  No specific migration guide available. Check the official documentation.'')"

text \<open>
  The part of \<open>check_api\<close> from \<open>best_match = results[0]\<close> on: the decision on the best
  match, once the query has returned a non-empty list.
\<close>

definition decide ::
  "('v, 'p) env \<Rightarrow> string \<Rightarrow> string \<Rightarrow> candidate \<Rightarrow> pydict" where
  "decide E api_call new_version best_match =
     (let similarity = (case cand_similarity best_match of Some s \<Rightarrow> s | None \<Rightarrow> 0);
          match_meta = (case cand_meta best_match of Some m \<Rightarrow> m | None \<Rightarrow> empty_meta);
          matched_function =
            (case meta_function match_meta of Some f \<Rightarrow> f | None \<Rightarrow> ''unknown'');
          is_deprecated = (case meta_deprecated match_meta of Some d \<Rightarrow> d | None \<Rightarrow> False)
      in if is_deprecated \<or> similarity < BREAKING_THRESHOLD then
           [(''status'', S ''breaking_change''),
            (''old_api'', S api_call),
            (''new_api'', S matched_function),
            (''similarity'', F (py_round similarity 4)),
            (''deprecated'', B is_deprecated),
            (''message'', S (get_break_message api_call matched_function match_meta)),
            (''migration'', S (get_migration api_call new_version)),
            (''confidence'', F (py_round (fmul E similarity 100) 1))]
         else if similarity < MINOR_THRESHOLD then
           [(''status'', S ''minor_change''),
            (''old_api'', S api_call),
            (''new_api'', S matched_function),
            (''similarity'', F (py_round similarity 4)),
            (''message'', S (api_call @ '' has minor behavioral changes in v'' @ new_version)),
            (''confidence'', F (py_round (fmul E similarity 100) 1))]
         else
           [(''status'', S ''compatible''),
            (''api'', S api_call),
            (''matched'', S matched_function),
            (''similarity'', F (py_round similarity 4)),
            (''confidence'', F (py_round (fmul E similarity 100) 1))])"

text \<open>
  \<open>check_api\<close>. \<open>Inl\<close> is an exception that leaves the call: one raised by the embedding
  engine, or the ValueError of \<open>int(new_version)\<close>. An exception of the query is caught
  and becomes the error verdict.
\<close>

definition check_api ::
  "('v, 'p) env \<Rightarrow> string \<Rightarrow> string \<Rightarrow> string \<Rightarrow> string \<Rightarrow> ('v, 'p) world
     \<Rightarrow> exn + (pydict \<times> ('v, 'p) world)" where
  "check_api E api_call old_version new_version library w =
     (case encode E (build_context api_call) of
        Inl e \<Rightarrow> Inl e
      | Inr query_vector \<Rightarrow>
          (case py_int new_version of
             None \<Rightarrow> Inl (ValueError new_version)
           | Some new_version_num \<Rightarrow>
               (case send_query E (query_of query_vector library new_version_num) w of
                  (Inl e, w') \<Rightarrow>
                    Inr ([(''status'', S ''error''), (''api'', S api_call), (''error'', S e)], w')
                | (Inr [], w') \<Rightarrow>
                    Inr ([(''status'', S ''breaking_change''),
                          (''old_api'', S api_call),
                          (''new_api'', S ''NOT FOUND''),
                          (''similarity'', F 0),
                          (''message'', S (api_call @ '' has no equivalent in '' @ library
                             @ '' '' @ new_version)),
                          (''migration'', S (get_migration api_call new_version))], w')
                | (Inr (best_match # rest), w') \<Rightarrow>
                    Inr (decide E api_call new_version best_match, w'))))"

subsection \<open>Checking a project\<close>

text \<open>
  \<open>api_usage\<close> is the dictionary from file paths to lists of API calls, in insertion
  order. The unique calls are collected into a set and visited in sorted order.
\<close>

type_synonym api_usage = "(string \<times> string list) list"

definition all_calls :: "api_usage \<Rightarrow> string list" where
  "all_calls api_usage = sort (remdups (concat (map snd api_usage)))"

text \<open>The loop that fills \<open>results_cache\<close>: one \<open>check_api\<close> call for each unique call.\<close>

fun check_each ::
  "('v, 'p) env \<Rightarrow> string list \<Rightarrow> string \<Rightarrow> string \<Rightarrow> string \<Rightarrow> (string \<times> pydict) list
     \<Rightarrow> ('v, 'p) world \<Rightarrow> exn + ((string \<times> pydict) list \<times> ('v, 'p) world)" where
  "check_each E [] old_version new_version library results_cache w = Inr (results_cache, w)"
| "check_each E (api_call # calls) old_version new_version library results_cache w =
     (case check_api E api_call old_version new_version library w of
        Inl e \<Rightarrow> Inl e
      | Inr (result, w') \<Rightarrow>
          check_each E calls old_version new_version library
            (dict_set api_call result results_cache) w')"

record buckets =
  breaking_changes :: "pydict list"
  minor_changes :: "pydict list"
  compatible :: "pydict list"
  errors :: "pydict list"

record summary =
  total_apis :: nat
  breaking :: nat
  minor :: nat
  compatible_count :: nat
  error_count :: nat

record report = buckets +
  summary :: summary

definition get_status :: "pydict \<Rightarrow> exn + pyval" where
  "get_status result =
     (case map_of result ''status'' of None \<Rightarrow> Inl (KeyError ''status'') | Some st \<Rightarrow> Inr st)"

text \<open>
  The body of the inner fan-out loop: the cached result of the call, with the file path
  put in front, is appended to the list its status selects.
\<close>

definition place ::
  "(string \<times> pydict) list \<Rightarrow> string \<Rightarrow> string \<Rightarrow> buckets \<Rightarrow> exn + buckets" where
  "place results_cache file_path api_call bs =
     (case map_of results_cache api_call of
        None \<Rightarrow> Inl (KeyError api_call)
      | Some result \<Rightarrow>
          (case get_status result of
             Inl e \<Rightarrow> Inl e
           | Inr st \<Rightarrow>
               let entry = (''file'', S file_path) # result
               in if st = S ''breaking_change'' then
                    Inr (bs\<lparr>breaking_changes := breaking_changes bs @ [entry]\<rparr>)
                  else if st = S ''minor_change'' then
                    Inr (bs\<lparr>minor_changes := minor_changes bs @ [entry]\<rparr>)
                  else if st = S ''error'' then
                    Inr (bs\<lparr>errors := errors bs @ [entry]\<rparr>)
                  else Inr (bs\<lparr>compatible := compatible bs @ [entry]\<rparr>)))"

fun place_calls ::
  "(string \<times> pydict) list \<Rightarrow> string \<Rightarrow> string list \<Rightarrow> buckets \<Rightarrow> exn + buckets" where
  "place_calls results_cache file_path [] bs = Inr bs"
| "place_calls results_cache file_path (api_call # calls) bs =
     (case place results_cache file_path api_call bs of
        Inl e \<Rightarrow> Inl e
      | Inr bs' \<Rightarrow> place_calls results_cache file_path calls bs')"

fun place_files :: "(string \<times> pydict) list \<Rightarrow> api_usage \<Rightarrow> buckets \<Rightarrow> exn + buckets" where
  "place_files results_cache [] bs = Inr bs"
| "place_files results_cache ((file_path, calls) # files) bs =
     (case place_calls results_cache file_path calls bs of
        Inl e \<Rightarrow> Inl e
      | Inr bs' \<Rightarrow> place_files results_cache files bs')"

text \<open>
  \<open>len([r for r in results_cache.values() if r["status"] == st])\<close>; a result without
  the key raises.
\<close>

fun count_status :: "string \<Rightarrow> pydict list \<Rightarrow> exn + nat" where
  "count_status st [] = Inr 0"
| "count_status st (r # rs) =
     (case get_status r of
        Inl e \<Rightarrow> Inl e
      | Inr s \<Rightarrow>
          (case count_status st rs of
             Inl e \<Rightarrow> Inl e
           | Inr n \<Rightarrow> Inr (if s = S st then Suc n else n)))"

definition summarise :: "nat \<Rightarrow> (string \<times> pydict) list \<Rightarrow> exn + summary" where
  "summarise n_total results_cache =
     (let values = map snd results_cache in
      case count_status ''breaking_change'' values of
        Inl e \<Rightarrow> Inl e
      | Inr nb \<Rightarrow>
      (case count_status ''minor_change'' values of
        Inl e \<Rightarrow> Inl e
      | Inr nm \<Rightarrow>
      (case count_status ''compatible'' values of
        Inl e \<Rightarrow> Inl e
      | Inr nc \<Rightarrow>
      (case count_status ''error'' values of
        Inl e \<Rightarrow> Inl e
      | Inr ne \<Rightarrow>
          Inr \<lparr>total_apis = n_total, breaking = nb, minor = nm, compatible_count = nc,
               error_count = ne\<rparr>))))"

definition check_project ::
  "('v, 'p) env \<Rightarrow> api_usage \<Rightarrow> string \<Rightarrow> string \<Rightarrow> string \<Rightarrow> ('v, 'p) world
     \<Rightarrow> exn + (report \<times> ('v, 'p) world)" where
  "check_project E api_usage old_version new_version library w =
     (case check_each E (all_calls api_usage) old_version new_version library [] w of
        Inl e \<Rightarrow> Inl e
      | Inr (results_cache, w') \<Rightarrow>
          (case place_files results_cache api_usage
                  \<lparr>breaking_changes = [], minor_changes = [], compatible = [], errors = []\<rparr> of
             Inl e \<Rightarrow> Inl e
           | Inr bs \<Rightarrow>
               (case summarise (length (all_calls api_usage)) results_cache of
                  Inl e \<Rightarrow> Inl e
                | Inr sm \<Rightarrow>
                    Inr (\<lparr>breaking_changes = breaking_changes bs,
                          minor_changes = minor_changes bs,
                          compatible = compatible bs,
                          errors = errors bs,
                          summary = sm\<rparr>, w'))))"

subsection \<open>The command line\<close>

text \<open>
  The parsed arguments of \<open>main\<close>, and the call it makes on the checker once the project
  has been scanned.
\<close>

record args =
  arg_path :: string
  arg_old_version :: string
  arg_new_version :: string
  arg_library :: string
  arg_json_output :: "string option"
  arg_threshold :: rat
  arg_no_banner :: bool

definition main_check ::
  "('v, 'p) env \<Rightarrow> args \<Rightarrow> api_usage \<Rightarrow> ('v, 'p) world \<Rightarrow> exn + (report \<times> ('v, 'p) world)" where
  "main_check E a api_usage w =
     check_project E api_usage (arg_old_version a) (arg_new_version a) (arg_library a) w"

section \<open>Code analyzer\<close>

subsection \<open>Reading a file as text\<close>

text \<open>
  The content of a file is a list of bytes (\<open>string\<close>: a \<open>char\<close> is a byte). A decoded
  text is a list of code points. The ASCII code points are kept as characters, so that
  they compare with the literals of the source; the others are numbers.
\<close>

datatype cp = Ch char | Uc nat

text \<open>
  The UTF-8 codec, as an automaton over the bytes. \<open>Pending k acc lo hi\<close>: \<open>k\<close>
  continuation bytes are still to come, \<open>acc\<close> is the value read so far and the next byte
  must lie in \<open>lo..hi\<close> (the first continuation byte after E0, ED, F0 and F4 has a
  narrower range: no overlong form, no surrogate, nothing above 10FFFF). A byte that does
  not fit ends the pending sequence with an error and is read again as a first byte. With
  \<open>errors="strict"\<close> an error raises UnicodeDecodeError; with \<open>errors="ignore"\<close> the
  bytes of the broken sequence are dropped.
\<close>

datatype errors_mode = Strict | Ignore

datatype utf8_state = Start | Pending nat nat nat nat

definition start_byte :: "char \<Rightarrow> bool \<times> cp option \<times> utf8_state" where
  "start_byte c =
     (let b = (of_char c :: nat) in
      if b < 0x80 then (False, Some (Ch c), Start)
      else if b < 0xC2 then (True, None, Start)
      else if b < 0xE0 then (False, None, Pending 1 (b - 0xC0) 0x80 0xBF)
      else if b = 0xE0 then (False, None, Pending 2 0 0xA0 0xBF)
      else if b = 0xED then (False, None, Pending 2 0xD 0x80 0x9F)
      else if b < 0xF0 then (False, None, Pending 2 (b - 0xE0) 0x80 0xBF)
      else if b = 0xF0 then (False, None, Pending 3 0 0x90 0xBF)
      else if b < 0xF4 then (False, None, Pending 3 (b - 0xF0) 0x80 0xBF)
      else if b = 0xF4 then (False, None, Pending 3 4 0x80 0x8F)
      else (True, None, Start))"

text \<open>One byte: whether an error was met, the code point completed, the next state.\<close>

fun utf8_step :: "utf8_state \<Rightarrow> char \<Rightarrow> bool \<times> cp option \<times> utf8_state" where
  "utf8_step Start c = start_byte c"
| "utf8_step (Pending k acc lo hi) c =
     (let b = (of_char c :: nat) in
      if lo \<le> b \<and> b \<le> hi then
        (if k = 1 then (False, Some (Uc (acc * 64 + (b - 0x80))), Start)
         else (False, None, Pending (k - 1) (acc * 64 + (b - 0x80)) 0x80 0xBF))
      else (case start_byte c of (err, out, st) \<Rightarrow> (True, out, st)))"

fun utf8_decode :: "errors_mode \<Rightarrow> utf8_state \<Rightarrow> string \<Rightarrow> exn + cp list" where
  "utf8_decode m st [] =
     (if st \<noteq> Start \<and> m = Strict then Inl UnicodeDecodeError else Inr [])"
| "utf8_decode m st (c # cs) =
     (case utf8_step st c of
        (err, out, st') \<Rightarrow>
          if err \<and> m = Strict then Inl UnicodeDecodeError
          else (case utf8_decode m st' cs of
                  Inl e \<Rightarrow> Inl e
                | Inr t \<Rightarrow> Inr (case out of None \<Rightarrow> t | Some x \<Rightarrow> x # t)))"

text \<open>Text mode turns \<open>\r\n\<close> and a lone \<open>\r\<close> into \<open>\n\<close>.\<close>

fun universal_newlines :: "cp list \<Rightarrow> cp list" where
  "universal_newlines [] = []"
| "universal_newlines [x] = (if x = Ch (CHR 0x0D) then [Ch (CHR 0x0A)] else [x])"
| "universal_newlines (x # y # t) =
     (if x = Ch (CHR 0x0D) \<and> y = Ch (CHR 0x0A) then Ch (CHR 0x0A) # universal_newlines t
      else if x = Ch (CHR 0x0D) then Ch (CHR 0x0A) # universal_newlines (y # t)
      else x # universal_newlines (y # t))"

subsection \<open>What the analyzer runs in\<close>

text \<open>A syntax tree as \<open>toDict\<close> gives it: dictionaries, lists and atoms.\<close>

datatype json =
    JDict "(string \<times> json) list"
  | JList "json list"
  | JStr string
  | JNum int
  | JBool bool
  | JNone

text \<open>
  What the analyzer takes from outside: whether esprima could be imported and its two
  parsers (\<open>Inl\<close>: the parser raised); \<open>str.isalnum\<close> on the code points from 128 on, which
  the regular expressions use for \<open>\w\<close> and \<open>\b\<close>; and the bytes \<open>open(path).read()\<close>
  finds, or the message of the OSError that \<open>open\<close> or \<open>read\<close> raises.
\<close>

record analyzer_env =
  HAS_ESPRIMA :: bool
  parseScript :: "cp list \<Rightarrow> exn + json"
  parseModule :: "cp list \<Rightarrow> exn + json"
  isalnum :: "nat \<Rightarrow> bool"
  read_bytes :: "string \<Rightarrow> string + string"

text \<open>
  \<open>open(file_path, "r", encoding="utf-8", errors="ignore")\<close> and \<open>f.read()\<close>, with the
  error handler as a parameter.
\<close>

definition read_with :: "errors_mode \<Rightarrow> analyzer_env \<Rightarrow> string \<Rightarrow> exn + cp list" where
  "read_with m env file_path =
     (case read_bytes env file_path of
        Inl msg \<Rightarrow> Inl (OSError msg)
      | Inr bytes \<Rightarrow>
          (case utf8_decode m Start bytes of
             Inl e \<Rightarrow> Inl e
           | Inr t \<Rightarrow> Inr (universal_newlines t)))"

definition read_text :: "analyzer_env \<Rightarrow> string \<Rightarrow> exn + cp list" where
  "read_text env file_path = read_with Ignore env file_path"

subsection \<open>The regular expressions of the fallback\<close>

text \<open>
  The patterns of \<open>extract_api_calls_regex\<close> use a small part of the \<open>re\<close> language:
  literal text, one capturing group that is an alternation of literals, \<open>\s*\<close> and
  \<open>\s+\<close>, a set of characters, \<open>\b\<close> and \<open>\w+\<close>. A pattern is a list of such items.
\<close>

datatype item =
    Lit string
  | Group "string list"
  | Spaces0
  | Spaces1
  | OneOf string
  | Boundary
  | Words1

text \<open>\<open>\s\<close> and \<open>\w\<close> on a code point, for a \<open>str\<close> pattern.\<close>

definition is_space :: "cp \<Rightarrow> bool" where
  "is_space x =
     (case x of
        Ch c \<Rightarrow> is_space_char c
      | Uc n \<Rightarrow> n \<in> set [0x85, 0xA0, 0x1680, 0x2028, 0x2029, 0x202F, 0x205F, 0x3000]
                \<or> (0x2000 \<le> n \<and> n \<le> 0x200A))"

definition is_word :: "(nat \<Rightarrow> bool) \<Rightarrow> cp \<Rightarrow> bool" where
  "is_word alnum x =
     (case x of
        Ch c \<Rightarrow> (CHR ''a'' \<le> c \<and> c \<le> CHR ''z'') \<or> (CHR ''A'' \<le> c \<and> c \<le> CHR ''Z'')
                \<or> is_digit_char c \<or> c = CHR ''_''
      | Uc n \<Rightarrow> alnum n)"

text \<open>A literal at the head of the text: what follows it, if it is there.\<close>

fun lit :: "string \<Rightarrow> cp list \<Rightarrow> cp list option" where
  "lit [] t = Some t"
| "lit (c # cs) [] = None"
| "lit (c # cs) (x # t) = (if x = Ch c then lit cs t else None)"

text \<open>
  A position in the text while matching: the code point before it (\<open>None\<close> at the start
  of the text), the text from it on, and the group captured so far.
\<close>

type_synonym mstate = "cp option \<times> cp list \<times> string option"

definition after :: "cp option \<Rightarrow> cp list \<Rightarrow> nat \<Rightarrow> cp option" where
  "after prev t k = (if k = 0 then prev else Some (t ! (k - 1)))"

text \<open>
  The ways one item can match at a position, the one the backtracking matcher tries first
  in front: the alternatives of a group in their order, a repetition with the most code
  points first.
\<close>

fun match_item :: "(nat \<Rightarrow> bool) \<Rightarrow> item \<Rightarrow> mstate \<Rightarrow> mstate list" where
  "match_item alnum (Lit s) (prev, t, g) =
     (case lit s t of
        None \<Rightarrow> []
      | Some r \<Rightarrow> [(after prev t (length s), r, g)])"
| "match_item alnum (Group alts) (prev, t, g) =
     concat (map (\<lambda>a. case lit a t of
                          None \<Rightarrow> []
                        | Some r \<Rightarrow> [(after prev t (length a), r, Some a)]) alts)"
| "match_item alnum Spaces0 (prev, t, g) =
     map (\<lambda>k. (after prev t k, drop k t, g)) (rev [0 ..< Suc (length (takeWhile is_space t))])"
| "match_item alnum Spaces1 (prev, t, g) =
     map (\<lambda>k. (after prev t k, drop k t, g)) (rev [1 ..< Suc (length (takeWhile is_space t))])"
| "match_item alnum (OneOf cs) (prev, t, g) =
     (case t of
        [] \<Rightarrow> []
      | x # r \<Rightarrow> if x \<in> Ch ` set cs then [(Some x, r, g)] else [])"
| "match_item alnum Boundary (prev, t, g) =
     (let word_left = (case prev of None \<Rightarrow> False | Some x \<Rightarrow> is_word alnum x);
          word_right = (case t of [] \<Rightarrow> False | x # r \<Rightarrow> is_word alnum x)
      in if word_left \<noteq> word_right then [(prev, t, g)] else [])"
| "match_item alnum Words1 (prev, t, g) =
     map (\<lambda>k. (after prev t k, drop k t, g))
       (rev [1 ..< Suc (length (takeWhile (is_word alnum) t))])"

fun match_seq :: "(nat \<Rightarrow> bool) \<Rightarrow> item list \<Rightarrow> mstate \<Rightarrow> mstate list" where
  "match_seq alnum [] st = [st]"
| "match_seq alnum (i # is) st = concat (map (match_seq alnum is) (match_item alnum i st))"

text \<open>
  The match of a pattern at a position, if there is one: its group and its length.
\<close>

definition match_at ::
  "(nat \<Rightarrow> bool) \<Rightarrow> item list \<Rightarrow> cp option \<Rightarrow> cp list \<Rightarrow> (string option \<times> nat) option" where
  "match_at alnum pat prev t =
     (case match_seq alnum pat (prev, t, None) of
        [] \<Rightarrow> None
      | (p, r, g) # rest \<Rightarrow> Some (g, length t - length r))"

text \<open>
  \<open>re.finditer\<close>, as the list of \<open>match.group(1)\<close>: the text is scanned from the left, and
  after a match the scan goes on behind it (\<open>skip\<close> counts the code points of the last
  match that are still to pass).
\<close>

fun finditer ::
  "(nat \<Rightarrow> bool) \<Rightarrow> item list \<Rightarrow> cp option \<Rightarrow> nat \<Rightarrow> cp list \<Rightarrow> string list" where
  "finditer alnum pat prev skip [] =
     (if skip = 0 then
        (case match_at alnum pat prev [] of
           Some (Some g, n) \<Rightarrow> [g]
         | _ \<Rightarrow> [])
      else [])"
| "finditer alnum pat prev skip (x # t) =
     (if skip = 0 then
        (case match_at alnum pat prev (x # t) of
           Some (Some g, n) \<Rightarrow> g # finditer alnum pat (Some x) (n - 1) t
         | _ \<Rightarrow> finditer alnum pat (Some x) 0 t)
      else finditer alnum pat (Some x) (skip - 1) t)"

text \<open>\<open>re.search\<close>, as a truth value.\<close>

fun re_search :: "(nat \<Rightarrow> bool) \<Rightarrow> item list \<Rightarrow> cp option \<Rightarrow> cp list \<Rightarrow> bool" where
  "re_search alnum pat prev [] = (match_at alnum pat prev [] \<noteq> None)"
| "re_search alnum pat prev (x # t) =
     (match_at alnum pat prev (x # t) \<noteq> None \<or> re_search alnum pat (Some x) t)"

definition reactdom_pattern :: "item list" where
  "reactdom_pattern =
     [Lit ''ReactDOM.'',
      Group [''render'', ''hydrate'', ''unmountComponentAtNode'', ''findDOMNode'',
             ''createPortal'', ''flushSync''],
      Spaces0, OneOf ''('']"

definition react_pattern :: "item list" where
  "react_pattern =
     [Lit ''React.'',
      Group [''createElement'', ''cloneElement'', ''createRef'', ''forwardRef'', ''memo'',
             ''lazy'', ''createContext'', ''isValidElement'', ''startTransition''],
      Spaces0, OneOf ''(<'']"

definition hooks_pattern :: "item list" where
  "hooks_pattern =
     [Boundary,
      Group [''useState'', ''useEffect'', ''useContext'', ''useReducer'', ''useCallback'',
             ''useMemo'', ''useRef'', ''useImperativeHandle'', ''useLayoutEffect'',
             ''useDebugValue'', ''useId'', ''useTransition'', ''useDeferredValue'',
             ''useInsertionEffect'', ''useSyncExternalStore''],
      Spaces0, OneOf ''('']"

definition new_api_pattern :: "item list" where
  "new_api_pattern = [Boundary, Group [''createRoot'', ''hydrateRoot''], Spaces0, OneOf ''('']"

definition class_pattern :: "item list" where
  "class_pattern =
     [Lit ''extends'', Spaces1, Lit ''React.'', Group [''Component'', ''PureComponent'']]"

definition component_pattern :: "item list" where
  "component_pattern =
     [Lit ''React.'', Group [''Fragment'', ''StrictMode'', ''Suspense'', ''Profiler'']]"

definition children_pattern :: "item list" where
  "children_pattern = [Lit ''React.Children.'', Words1]"

text \<open>
  The body of \<open>extract_api_calls_regex\<close> behind the reading of the file. The set
  \<open>api_calls\<close> is a list without repetition; \<open>sorted\<close> orders it.
\<close>

definition add_all :: "string \<Rightarrow> string list \<Rightarrow> string list \<Rightarrow> string list" where
  "add_all prefix groups api_calls = fold (\<lambda>g. List.insert (prefix @ g)) groups api_calls"

definition regex_calls :: "(nat \<Rightarrow> bool) \<Rightarrow> cp list \<Rightarrow> string list" where
  "regex_calls alnum code =
     (let api_calls = [];
          api_calls = add_all ''ReactDOM.'' (finditer alnum reactdom_pattern None 0 code) api_calls;
          api_calls = add_all ''React.'' (finditer alnum react_pattern None 0 code) api_calls;
          api_calls = add_all [] (finditer alnum hooks_pattern None 0 code) api_calls;
          api_calls = add_all [] (finditer alnum new_api_pattern None 0 code) api_calls;
          api_calls = add_all ''React.'' (finditer alnum class_pattern None 0 code) api_calls;
          api_calls = add_all ''React.'' (finditer alnum component_pattern None 0 code) api_calls;
          api_calls = (if re_search alnum children_pattern None code
                       then List.insert ''React.Children.map'' api_calls else api_calls)
      in sort api_calls)"

definition extract_api_calls_regex :: "analyzer_env \<Rightarrow> string \<Rightarrow> exn + string list" where
  "extract_api_calls_regex env file_path =
     (case read_text env file_path of
        Inl e \<Rightarrow> Inl e
      | Inr code \<Rightarrow> Inr (regex_calls (isalnum env) code))"

subsection \<open>Known React API patterns\<close>

definition REACT_HOOKS :: "string list" where
  "REACT_HOOKS =
     [''useState'', ''useEffect'', ''useContext'', ''useReducer'',
      ''useCallback'', ''useMemo'', ''useRef'', ''useImperativeHandle'',
      ''useLayoutEffect'', ''useDebugValue'', ''useId'', ''useTransition'',
      ''useDeferredValue'', ''useInsertionEffect'', ''useSyncExternalStore'']"

definition REACT_MEMBER_APIS :: "(string \<times> string list) list" where
  "REACT_MEMBER_APIS =
     [(''ReactDOM'',
        [''render'', ''hydrate'', ''unmountComponentAtNode'',
         ''findDOMNode'', ''createPortal'', ''flushSync'']),
      (''React'',
        [''createElement'', ''cloneElement'', ''createRef'',
         ''forwardRef'', ''memo'', ''lazy'', ''createContext'',
         ''isValidElement'', ''startTransition''])]"

definition REACT_COMPONENT_APIS :: "string list" where
  "REACT_COMPONENT_APIS =
     [''React.Component'', ''React.PureComponent'', ''React.Fragment'',
      ''React.Suspense'', ''React.StrictMode'', ''React.Profiler'']"

definition REACT_IMPORTS :: "string list" where
  "REACT_IMPORTS = [''createRoot'', ''hydrateRoot'']"

subsection \<open>Walking the syntax tree\<close>

text \<open>
  What the walk does with a value of the tree, and where Python raises. \<open>x.get(k, d)\<close>
  needs a dictionary; membership in a set or in the keys of a dictionary hashes the
  value, which lists and dictionaries refuse; a \<open>for\<close> loop needs something iterable.
\<close>

fun type_name :: "json \<Rightarrow> string" where
  "type_name (JDict kvs) = ''dict''"
| "type_name (JList xs) = ''list''"
| "type_name (JStr s) = ''str''"
| "type_name (JNum n) = ''int''"
| "type_name (JBool b) = ''bool''"
| "type_name JNone = ''NoneType''"

definition quoted :: "string \<Rightarrow> string" where
  "quoted s = [CHR 0x27] @ s @ [CHR 0x27]"

fun dict_get :: "json \<Rightarrow> string \<Rightarrow> json \<Rightarrow> exn + json" where
  "dict_get (JDict kvs) k d = Inr (case map_of kvs k of Some v \<Rightarrow> v | None \<Rightarrow> d)"
| "dict_get x k d =
     Inl (AttributeError (quoted (type_name x) @ '' object has no attribute '' @ quoted ''get''))"

fun in_names :: "json \<Rightarrow> string list \<Rightarrow> exn + bool" where
  "in_names (JStr s) names = Inr (s \<in> set names)"
| "in_names (JDict kvs) names = Inl (TypeError (''unhashable type: '' @ quoted ''dict''))"
| "in_names (JList xs) names = Inl (TypeError (''unhashable type: '' @ quoted ''list''))"
| "in_names x names = Inr False"

fun is_dict :: "json \<Rightarrow> bool" where
  "is_dict (JDict kvs) = True"
| "is_dict x = False"

fun is_container :: "json \<Rightarrow> bool" where
  "is_container (JDict kvs) = True"
| "is_container (JList xs) = True"
| "is_container x = False"

fun truthy :: "json \<Rightarrow> bool" where
  "truthy (JDict kvs) = (kvs \<noteq> [])"
| "truthy (JList xs) = (xs \<noteq> [])"
| "truthy (JStr s) = (s \<noteq> [])"
| "truthy (JNum n) = (n \<noteq> 0)"
| "truthy (JBool b) = b"
| "truthy JNone = False"

text \<open>
  The elements a \<open>for\<close> loop over a value visits that are dictionaries (the loop over
  the import specifiers skips everything else): a dictionary yields its keys and a string
  its characters, none of them a dictionary.
\<close>

fun dict_elements :: "json \<Rightarrow> exn + json list" where
  "dict_elements (JList xs) = Inr (filter is_dict xs)"
| "dict_elements (JDict kvs) = Inr []"
| "dict_elements (JStr s) = Inr []"
| "dict_elements x =
     Inl (TypeError (quoted (type_name x) @ '' object is not iterable''))"

text \<open>The five cases of \<open>walk\<close> on a dictionary node, each on the fields of the node.\<close>

definition member_expression :: "(string \<times> json) list \<Rightarrow> string list \<Rightarrow> exn + string list" where
  "member_expression node api_calls =
     (case dict_get (JDict node) ''object'' (JDict []) of Inl e \<Rightarrow> Inl e | Inr obj \<Rightarrow>
     (case dict_get (JDict node) ''property'' (JDict []) of Inl e \<Rightarrow> Inl e | Inr prop \<Rightarrow>
     (case dict_get obj ''name'' (JStr []) of Inl e \<Rightarrow> Inl e | Inr obj_name \<Rightarrow>
     (case dict_get prop ''name'' (JStr []) of Inl e \<Rightarrow> Inl e | Inr prop_name \<Rightarrow>
     (case in_names obj_name (map fst REACT_MEMBER_APIS) of Inl e \<Rightarrow> Inl e | Inr known \<Rightarrow>
     (case (if known
            then (case obj_name of
                    JStr owner \<Rightarrow>
                      (case in_names prop_name
                              (case map_of REACT_MEMBER_APIS owner of Some ms \<Rightarrow> ms | None \<Rightarrow> []) of
                         Inl e \<Rightarrow> Inl e
                       | Inr member \<Rightarrow>
                           (case prop_name of
                              JStr p \<Rightarrow>
                                Inr (if member then List.insert (owner @ ''.'' @ p) api_calls
                                     else api_calls)
                            | _ \<Rightarrow> Inr api_calls))
                  | _ \<Rightarrow> Inr api_calls)
            else Inr api_calls) of
        Inl e \<Rightarrow> Inl e
      | Inr api_calls \<Rightarrow>
          Inr (if obj_name = JStr ''React'' \<and> prop_name = JStr ''Children''
               then List.insert ''React.Children.map'' api_calls else api_calls)))))))"

definition call_expression :: "(string \<times> json) list \<Rightarrow> string list \<Rightarrow> exn + string list" where
  "call_expression node api_calls =
     (case dict_get (JDict node) ''callee'' (JDict []) of Inl e \<Rightarrow> Inl e | Inr callee \<Rightarrow>
     (case dict_get callee ''name'' (JStr []) of Inl e \<Rightarrow> Inl e | Inr callee_name \<Rightarrow>
     (case in_names callee_name REACT_HOOKS of Inl e \<Rightarrow> Inl e | Inr is_hook \<Rightarrow>
     (case in_names callee_name REACT_IMPORTS of Inl e \<Rightarrow> Inl e | Inr is_import \<Rightarrow>
     (case callee_name of
         JStr name \<Rightarrow>
           Inr (let api_calls = (if is_hook then List.insert name api_calls else api_calls)
                in if is_import then List.insert name api_calls else api_calls)
       | _ \<Rightarrow> Inr api_calls)))))"

definition class_declaration :: "(string \<times> json) list \<Rightarrow> string list \<Rightarrow> exn + string list" where
  "class_declaration node api_calls =
     (case dict_get (JDict node) ''superClass'' (JDict []) of Inl e \<Rightarrow> Inl e | Inr superclass \<Rightarrow>
      if is_dict superclass then
        (case dict_get superclass ''object'' (JDict []) of Inl e \<Rightarrow> Inl e | Inr obj \<Rightarrow>
        (case dict_get superclass ''property'' (JDict []) of Inl e \<Rightarrow> Inl e | Inr prop \<Rightarrow>
        (case dict_get obj ''name'' JNone of Inl e \<Rightarrow> Inl e | Inr obj_name \<Rightarrow>
         if obj_name = JStr ''React'' then
           (case dict_get prop ''name'' JNone of Inl e \<Rightarrow> Inl e | Inr prop_name \<Rightarrow>
            (case prop_name of
               JStr p \<Rightarrow>
                 Inr (if p \<in> set [''Component'', ''PureComponent'']
                      then List.insert (''React.'' @ p) api_calls else api_calls)
             | _ \<Rightarrow> Inr api_calls))
         else Inr api_calls)))
      else Inr api_calls)"

definition jsx_member_expression ::
  "(string \<times> json) list \<Rightarrow> string list \<Rightarrow> exn + string list" where
  "jsx_member_expression node api_calls =
     (case dict_get (JDict node) ''object'' (JDict []) of Inl e \<Rightarrow> Inl e | Inr obj \<Rightarrow>
     (case dict_get (JDict node) ''property'' (JDict []) of Inl e \<Rightarrow> Inl e | Inr prop \<Rightarrow>
     (case dict_get obj ''name'' JNone of Inl e \<Rightarrow> Inl e | Inr obj_name \<Rightarrow>
      if obj_name = JStr ''React'' then
        (case dict_get prop ''name'' (JStr []) of Inl e \<Rightarrow> Inl e | Inr prop_name \<Rightarrow>
         (case prop_name of
            JStr p \<Rightarrow>
              Inr (if ''React.'' @ p \<in> set REACT_COMPONENT_APIS
                   then List.insert (''React.'' @ p) api_calls else api_calls)
          | _ \<Rightarrow> Inr api_calls))
      else Inr api_calls)))"

definition import_specifier :: "json \<Rightarrow> string list \<Rightarrow> exn + string list" where
  "import_specifier spec api_calls =
     (case dict_get spec ''imported'' (JDict []) of Inl e \<Rightarrow> Inl e | Inr imported \<Rightarrow>
     (case dict_get spec ''local'' (JDict []) of Inl e \<Rightarrow> Inl e | Inr local_node \<Rightarrow>
     (case dict_get imported ''name'' (JStr []) of Inl e \<Rightarrow> Inl e | Inr imported_name \<Rightarrow>
     (case (if truthy imported_name then Inr imported_name
            else dict_get local_node ''name'' (JStr [])) of Inl e \<Rightarrow> Inl e | Inr name \<Rightarrow>
     (case in_names name REACT_IMPORTS of Inl e \<Rightarrow> Inl e | Inr is_import \<Rightarrow>
     (case in_names name REACT_HOOKS of Inl e \<Rightarrow> Inl e | Inr is_hook \<Rightarrow>
     (case name of
         JStr n \<Rightarrow>
           Inr (let api_calls = (if is_import then List.insert n api_calls else api_calls)
                in if is_hook then List.insert n api_calls else api_calls)
       | _ \<Rightarrow> Inr api_calls)))))))"

fun import_specifiers :: "json list \<Rightarrow> string list \<Rightarrow> exn + string list" where
  "import_specifiers [] api_calls = Inr api_calls"
| "import_specifiers (spec # specs) api_calls =
     (case import_specifier spec api_calls of
        Inl e \<Rightarrow> Inl e
      | Inr api_calls' \<Rightarrow> import_specifiers specs api_calls')"

definition import_declaration ::
  "(string \<times> json) list \<Rightarrow> string list \<Rightarrow> exn + string list" where
  "import_declaration node api_calls =
     (case dict_get (JDict node) ''source'' (JDict []) of Inl e \<Rightarrow> Inl e | Inr source_node \<Rightarrow>
     (case dict_get source_node ''value'' (JStr []) of Inl e \<Rightarrow> Inl e | Inr source \<Rightarrow>
     (case dict_get (JDict node) ''specifiers'' (JList []) of Inl e \<Rightarrow> Inl e | Inr specifiers \<Rightarrow>
     (case dict_elements specifiers of Inl e \<Rightarrow> Inl e | Inr specs \<Rightarrow>
      import_specifiers specs api_calls))))"

text \<open>What \<open>walk\<close> does at a dictionary node before it goes into the children.\<close>

definition visit :: "(string \<times> json) list \<Rightarrow> string list \<Rightarrow> exn + string list" where
  "visit node api_calls =
     (let node_type = (case map_of node ''type'' of Some t \<Rightarrow> t | None \<Rightarrow> JStr []) in
      if node_type = JStr ''MemberExpression'' then member_expression node api_calls
      else if node_type = JStr ''CallExpression'' then call_expression node api_calls
      else if node_type = JStr ''ClassDeclaration'' then class_declaration node api_calls
      else if node_type = JStr ''JSXMemberExpression'' then jsx_member_expression node api_calls
      else if node_type = JStr ''ImportDeclaration'' then import_declaration node api_calls
      else Inr api_calls)"

fun walk :: "json \<Rightarrow> string list \<Rightarrow> exn + string list"
  and walk_items :: "json list \<Rightarrow> string list \<Rightarrow> exn + string list"
  and walk_values :: "(string \<times> json) list \<Rightarrow> string list \<Rightarrow> exn + string list" where
  "walk (JDict node) api_calls =
     (case visit node api_calls of
        Inl e \<Rightarrow> Inl e
      | Inr api_calls' \<Rightarrow> walk_values node api_calls')"
| "walk (JList items) api_calls = walk_items items api_calls"
| "walk (JStr s) api_calls = Inr api_calls"
| "walk (JNum n) api_calls = Inr api_calls"
| "walk (JBool b) api_calls = Inr api_calls"
| "walk JNone api_calls = Inr api_calls"
| "walk_items [] api_calls = Inr api_calls"
| "walk_items (x # xs) api_calls =
     (case walk x api_calls of
        Inl e \<Rightarrow> Inl e
      | Inr api_calls' \<Rightarrow> walk_items xs api_calls')"
| "walk_values [] api_calls = Inr api_calls"
| "walk_values ((k, v) # kvs) api_calls =
     (if is_container v then
        (case walk v api_calls of
           Inl e \<Rightarrow> Inl e
         | Inr api_calls' \<Rightarrow> walk_values kvs api_calls')
      else walk_values kvs api_calls)"

text \<open>
  The two nested \<open>try\<close> blocks around the parsers: the script grammar first, the module
  grammar when that raises, and no tree when both raise.
\<close>

definition parse_source :: "analyzer_env \<Rightarrow> cp list \<Rightarrow> json option" where
  "parse_source env code =
     (case parseScript env code of
        Inr ast \<Rightarrow> Some ast
      | Inl e \<Rightarrow> (case parseModule env code of Inr ast \<Rightarrow> Some ast | Inl e' \<Rightarrow> None))"

definition extract_api_calls_ast :: "analyzer_env \<Rightarrow> string \<Rightarrow> exn + string list" where
  "extract_api_calls_ast env file_path =
     (if \<not> HAS_ESPRIMA env then extract_api_calls_regex env file_path
      else
        (case read_text env file_path of
           Inl e \<Rightarrow> Inl e
         | Inr code \<Rightarrow>
             (case parse_source env code of
                None \<Rightarrow> extract_api_calls_regex env file_path
              | Some ast \<Rightarrow>
                  (case walk ast [] of
                     Inl e \<Rightarrow> Inl e
                   | Inr api_calls \<Rightarrow> Inr (sort api_calls)))))"

subsection \<open>Scanning a project\<close>

text \<open>
  The directory tree below the project path as \<open>os.walk\<close> lists it: for each directory
  its subdirectories, each with its own tree, and the names of its files. Names are taken
  to be ASCII, paths are POSIX paths.
\<close>

datatype tree = Tree "(string \<times> tree) list" "string list"

definition path_join :: "string \<Rightarrow> string \<Rightarrow> string" where
  "path_join a b =
     (if b \<noteq> [] \<and> hd b = CHR ''/'' then b
      else if a = [] \<or> last a = CHR ''/'' then a @ b
      else a @ ''/'' @ b)"

text \<open>
  \<open>os.path.splitext(file)[1]\<close>: the name from its last dot on, unless only dots stand
  before that dot.
\<close>

definition splitext_ext :: "string \<Rightarrow> string" where
  "splitext_ext name =
     (let suffix = takeWhile (\<lambda>c. c \<noteq> CHR ''.'') (rev name);
          front = drop (Suc (length suffix)) (rev name)
      in if length suffix < length name \<and> (\<exists>c \<in> set front. c \<noteq> CHR ''.'')
         then CHR ''.'' # rev suffix else [])"

definition lower_char :: "char \<Rightarrow> char" where
  "lower_char c =
     (if CHR ''A'' \<le> c \<and> c \<le> CHR ''Z'' then char_of (of_char c + (32 :: nat)) else c)"

definition lower :: "string \<Rightarrow> string" where
  "lower s = map lower_char s"

definition supported_extensions :: "string list" where
  "supported_extensions = [''.js'', ''.jsx'', ''.tsx'', ''.ts'', ''.mjs'']"

definition skip_dirs :: "string list" where
  "skip_dirs = [''node_modules'', ''.git'', ''dist'', ''build'', ''__pycache__'', ''.next'']"

text \<open>
  The state of the scan: the dictionary \<open>results\<close> and the list \<open>skipped\<close>. The body of
  the loop over the files of one directory:
\<close>

type_synonym scan_state = "api_usage \<times> (string \<times> string) list"

fun scan_files :: "analyzer_env \<Rightarrow> string \<Rightarrow> string list \<Rightarrow> scan_state \<Rightarrow> scan_state" where
  "scan_files env root_dir [] st = st"
| "scan_files env root_dir (file # files) (results, skipped) =
     scan_files env root_dir files
       (if lower (splitext_ext file) \<in> set supported_extensions then
          (let file_path = path_join root_dir file in
           case extract_api_calls_ast env file_path of
             Inr calls \<Rightarrow>
               if calls \<noteq> [] then (dict_set file_path calls results, skipped)
               else (results, skipped)
           | Inl e \<Rightarrow> (results, skipped @ [(file_path, str_exn e)]))
        else (results, skipped))"

text \<open>
  \<open>os.walk\<close>, top down: the files of a directory, then its subdirectories without
  the names of \<open>skip_dirs\<close>, each with all that is below it.
\<close>

fun scan_tree :: "analyzer_env \<Rightarrow> string \<Rightarrow> tree \<Rightarrow> scan_state \<Rightarrow> scan_state"
  and scan_dirs :: "analyzer_env \<Rightarrow> string \<Rightarrow> (string \<times> tree) list \<Rightarrow> scan_state \<Rightarrow> scan_state" where
  "scan_tree env root_dir (Tree dirs files) st =
     scan_dirs env root_dir dirs (scan_files env root_dir files st)"
| "scan_dirs env root_dir [] st = st"
| "scan_dirs env root_dir ((d, t) # dirs) st =
     scan_dirs env root_dir dirs
       (if d \<notin> set skip_dirs then scan_tree env (path_join root_dir d) t st else st)"

text \<open>\<open>scan_project\<close> returns \<open>results\<close>; \<open>skipped\<close> is a local variable of it.\<close>

definition scan_project :: "analyzer_env \<Rightarrow> tree \<Rightarrow> string \<Rightarrow> api_usage" where
  "scan_project env t project_path = fst (scan_tree env project_path t ([], []))"

definition scan_skipped :: "analyzer_env \<Rightarrow> tree \<Rightarrow> string \<Rightarrow> (string \<times> string) list" where
  "scan_skipped env t project_path = snd (scan_tree env project_path t ([], []))"

section \<open>Vocabulary of the properties\<close>

text \<open>
  The definitions of this section are not functions of the source: they name what the
  properties below speak about, and give the inputs of the examples.
\<close>

subsection \<open>Runs of the checker\<close>

text \<open>
  The score and the deprecation flag \<open>check_api\<close> reads off a candidate, with the
  defaults it uses for an absent key.
\<close>

definition candidate_score :: "candidate \<Rightarrow> rat" where
  "candidate_score c = (case cand_similarity c of Some s \<Rightarrow> s | None \<Rightarrow> 0)"

definition candidate_deprecated :: "candidate \<Rightarrow> bool" where
  "candidate_deprecated c =
     (case cand_meta c of
        None \<Rightarrow> False
      | Some m \<Rightarrow> (case meta_deprecated m of Some d \<Rightarrow> d | None \<Rightarrow> False))"

text \<open>
  The query sent for an API call, when the embedding engine returns and the version
  parses; \<open>None\<close> when \<open>check_api\<close> raises before it reaches the provider.
\<close>

definition the_query :: "('v, 'p) env \<Rightarrow> string \<Rightarrow> string \<Rightarrow> string \<Rightarrow> 'v query option" where
  "the_query E api_call new_version library =
     (case encode E (build_context api_call) of
        Inl e \<Rightarrow> None
      | Inr v \<Rightarrow>
          (case py_int new_version of
             None \<Rightarrow> None
           | Some n \<Rightarrow> Some (query_of v library n)))"

text \<open>The verdict \<open>check_api\<close> builds from what the provider answered.\<close>

definition verdict_of ::
  "('v, 'p) env \<Rightarrow> string \<Rightarrow> string \<Rightarrow> string \<Rightarrow> string + candidate list \<Rightarrow> pydict" where
  "verdict_of E api_call new_version library r =
     (case r of
        Inl e \<Rightarrow> [(''status'', S ''error''), (''api'', S api_call), (''error'', S e)]
      | Inr [] \<Rightarrow>
          [(''status'', S ''breaking_change''),
           (''old_api'', S api_call),
           (''new_api'', S ''NOT FOUND''),
           (''similarity'', F 0),
           (''message'', S (api_call @ '' has no equivalent in '' @ library
              @ '' '' @ new_version)),
           (''migration'', S (get_migration api_call new_version))]
      | Inr (best_match # rest) \<Rightarrow> decide E api_call new_version best_match)"

text \<open>The answers of the provider to a list of queries sent one after the other.\<close>

fun answers ::
  "('v, 'p) env \<Rightarrow> 'p \<Rightarrow> 'v query list \<Rightarrow> (string + candidate list) list" where
  "answers E p [] = []"
| "answers E p (q # qs) = (case index_query E p q of (r, p') \<Rightarrow> r # answers E p' qs)"

text \<open>The guides of the catalogue, as triples of API call, version and text.\<close>

definition catalog_guides :: "(string \<times> string \<times> string) list" where
  "catalog_guides =
     concat (map (\<lambda>(api_call, versions).
       concat (map (\<lambda>(version, info).
         map (\<lambda>(k, g). (api_call, version, g)) (filter (\<lambda>(k, g). k = ''guide'') info))
         versions))
       MIGRATION_GUIDES)"

definition no_guide_message :: string where
  "no_guide_message =
     ''  No specific migration guide available. Check the official documentation.''"

text \<open>
  The entries of a report, list after list; the API call an entry is about (the key
  \<open>api\<close>, else \<open>old_api\<close>, as the report printer reads it); and the entries the fan-out
  loop makes from a cache of results.
\<close>

definition all_entries :: "report \<Rightarrow> pydict list" where
  "all_entries rep = breaking_changes rep @ minor_changes rep @ compatible rep @ errors rep"

definition entry_api :: "pydict \<Rightarrow> pyval option" where
  "entry_api e = (case map_of e ''api'' of Some a \<Rightarrow> Some a | None \<Rightarrow> map_of e ''old_api'')"

definition has_status :: "string \<Rightarrow> pydict \<Rightarrow> bool" where
  "has_status st e = (map_of e ''status'' = Some (S st))"

definition fan_out :: "(string \<times> pydict) list \<Rightarrow> api_usage \<Rightarrow> pydict list" where
  "fan_out results_cache api_usage =
     concat (map (\<lambda>(file_path, calls).
       map (\<lambda>api_call.
         (''file'', S file_path) #
           (case map_of results_cache api_call of Some result \<Rightarrow> result | None \<Rightarrow> []))
         calls)
       api_usage)"

text \<open>
  A provider for examples: its state is the list of answers it still has to give, one
  for each query; the embedding of a text is the text itself.
\<close>

definition scripted_env :: "(string, (string + candidate list) list) env" where
  "scripted_env =
     \<lparr>encode = (\<lambda>text. Inr text),
      index_query = (\<lambda>p q. case p of [] \<Rightarrow> (Inr [], []) | r # rs \<Rightarrow> (r, rs)),
      fmul = (\<lambda>a b. a * b)\<rparr>"

definition scored :: "rat \<Rightarrow> bool \<Rightarrow> candidate" where
  "scored s d =
     \<lparr>cand_similarity = Some s,
      cand_meta = Some (empty_meta\<lparr>meta_function := Some ''createRoot'',
                                   meta_deprecated := Some d\<rparr>)\<rparr>"

definition script :: "(string + candidate list) list \<Rightarrow> (string, (string + candidate list) list) world" where
  "script rs = \<lparr>provider = rs, queries = []\<rparr>"

text \<open>
  The queries \<open>check_project\<close> sends for a list of API calls, and the cache of verdicts
  it ends with when the provider starts in state \<open>p\<close>: the unique calls in sorted order,
  each with the verdict of its own answer.
\<close>

definition queries_for ::
  "('v, 'p) env \<Rightarrow> string list \<Rightarrow> string \<Rightarrow> string \<Rightarrow> 'v query list" where
  "queries_for E calls new_version library =
     List.map_filter (\<lambda>api_call. the_query E api_call new_version library) calls"

definition verdicts_from ::
  "('v, 'p) env \<Rightarrow> string list \<Rightarrow> string \<Rightarrow> string \<Rightarrow> 'p \<Rightarrow> (string \<times> pydict) list" where
  "verdicts_from E calls new_version library p =
     map (\<lambda>(api_call, r). (api_call, verdict_of E api_call new_version library r))
       (zip calls (answers E p (queries_for E calls new_version library)))"

definition verdicts ::
  "('v, 'p) env \<Rightarrow> api_usage \<Rightarrow> string \<Rightarrow> string \<Rightarrow> 'p \<Rightarrow> (string \<times> pydict) list" where
  "verdicts E api_usage new_version library p =
     verdicts_from E (all_calls api_usage) new_version library p"

text \<open>How often an API call occurs in the lists of a scan result.\<close>

definition occurrences :: "api_usage \<Rightarrow> string \<Rightarrow> nat" where
  "occurrences api_usage api_call =
     sum_list (map (\<lambda>(file_path, calls). count_list calls api_call) api_usage)"

text \<open>A list of entries sorted into the four lists by status, behind what is there.\<close>

definition add_entries :: "buckets \<Rightarrow> pydict list \<Rightarrow> buckets" where
  "add_entries bs es =
     \<lparr>breaking_changes = breaking_changes bs @ filter (has_status ''breaking_change'') es,
      minor_changes = minor_changes bs @ filter (has_status ''minor_change'') es,
      compatible = compatible bs @ filter (has_status ''compatible'') es,
      errors = errors bs @ filter (has_status ''error'') es\<rparr>"

text \<open>
  The report written in terms of a cache of verdicts: each list holds the fan-out entries
  of its status, and the summary counts the verdicts of the cache.
\<close>

definition report_of :: "(string \<times> pydict) list \<Rightarrow> api_usage \<Rightarrow> report" where
  "report_of results_cache api_usage =
     \<lparr>breaking_changes = filter (has_status ''breaking_change'') (fan_out results_cache api_usage),
      minor_changes = filter (has_status ''minor_change'') (fan_out results_cache api_usage),
      compatible = filter (has_status ''compatible'') (fan_out results_cache api_usage),
      errors = filter (has_status ''error'') (fan_out results_cache api_usage),
      summary =
        \<lparr>total_apis = length results_cache,
         breaking = length (filter (has_status ''breaking_change'') (map snd results_cache)),
         minor = length (filter (has_status ''minor_change'') (map snd results_cache)),
         compatible_count = length (filter (has_status ''compatible'') (map snd results_cache)),
         error_count = length (filter (has_status ''error'') (map snd results_cache))\<rparr>\<rparr>"

text \<open>The answer the provider gave to the query of one API call during the aggregation.\<close>

definition answer_to ::
  "('v, 'p) env \<Rightarrow> api_usage \<Rightarrow> string \<Rightarrow> string \<Rightarrow> 'p \<Rightarrow> string
     \<Rightarrow> (string + candidate list) option" where
  "answer_to E api_usage new_version library p api_call =
     map_of (zip (all_calls api_usage)
       (answers E p (queries_for E (all_calls api_usage) new_version library))) api_call"

text \<open>Scan results for examples.\<close>

definition five_files :: api_usage where
  "five_files =
     [(''src/a.js'', [''useState'']), (''src/b.js'', [''useState'']),
      (''src/c.js'', [''useState'']), (''src/d.js'', [''useState'']),
      (''src/e.js'', [''useState''])]"

definition two_files :: api_usage where
  "two_files =
     [(''src/index.js'', [''ReactDOM.render'', ''useState'']),
      (''src/App.js'', [''useState''])]"

text \<open>
  The arguments of a run with the defaults of the command line, except for the threshold
  given, and a scan result with one file.
\<close>

definition args_with_threshold :: "rat \<Rightarrow> args" where
  "args_with_threshold t =
     \<lparr>arg_path = ''.'', arg_old_version = ''17'', arg_new_version = ''18'',
      arg_library = ''react'', arg_json_output = None, arg_threshold = t,
      arg_no_banner = False\<rparr>"

definition one_file :: api_usage where
  "one_file = [(''src/App.js'', [''useState''])]"

subsection \<open>Runs of the analyzer\<close>

text \<open>
  The canonical symbols the patterns of the lexical extractor can produce: each
  alternative of a group, behind the prefix the extractor puts in front of it.
\<close>

fun groups_of :: "item list \<Rightarrow> string list" where
  "groups_of [] = []"
| "groups_of (Group alts # is) = alts @ groups_of is"
| "groups_of (i # is) = groups_of is"

definition lexical_symbols :: "string list" where
  "lexical_symbols =
     map (\<lambda>g. ''ReactDOM.'' @ g) (groups_of reactdom_pattern)
     @ map (\<lambda>g. ''React.'' @ g) (groups_of react_pattern)
     @ groups_of hooks_pattern
     @ groups_of new_api_pattern
     @ map (\<lambda>g. ''React.'' @ g) (groups_of class_pattern)
     @ map (\<lambda>g. ''React.'' @ g) (groups_of component_pattern)
     @ [''React.Children.map'']"


text \<open>
  A project for examples. \<open>src/h.js\<close> holds one statement, for which the tree below is
  what esprima's script parser returns. \<open>src/latin1.js\<close> is not valid UTF-8: the byte E9
  (an e with acute accent in Latin-1) stands in a comment. \<open>src/plain.js\<close> uses no React
  API. \<open>src/gone.js\<close> is listed by the walk and cannot be opened. The stub parser knows
  the one statement and raises on every other text, as esprima does on a text it cannot
  parse; the texts are ASCII, so no code point from 128 on is asked for.
\<close>

definition h_source :: string where
  "h_source = ''const h = React.createElement;''"

definition h_ast :: json where
  "h_ast =
     JDict [(''type'', JStr ''Program''),
            (''sourceType'', JStr ''script''),
            (''body'', JList
              [JDict [(''type'', JStr ''VariableDeclaration''),
                      (''declarations'', JList
                        [JDict [(''type'', JStr ''VariableDeclarator''),
                                (''id'', JDict [(''type'', JStr ''Identifier''),
                                               (''name'', JStr ''h'')]),
                                (''init'', JDict
                                  [(''type'', JStr ''MemberExpression''),
                                   (''computed'', JBool False),
                                   (''object'', JDict [(''type'', JStr ''Identifier''),
                                                      (''name'', JStr ''React'')]),
                                   (''property'', JDict [(''type'', JStr ''Identifier''),
                                                        (''name'', JStr ''createElement'')])])]]),
                      (''kind'', JStr ''const'')]])]"

definition latin1_source :: string where
  "latin1_source = ''// caf'' @ [CHR 0xE9, CHR 0x0A] @ ''useState(0);''"

definition sample_env :: analyzer_env where
  "sample_env =
     \<lparr>HAS_ESPRIMA = True,
      parseScript = (\<lambda>code. if code = map Ch h_source then Inr h_ast
                             else Inl (Raised ''Unexpected token'')),
      parseModule = (\<lambda>code. if code = map Ch h_source then Inr h_ast
                             else Inl (Raised ''Unexpected token'')),
      isalnum = (\<lambda>n. False),
      read_bytes = (\<lambda>file_path.
        if file_path = ''src/h.js'' then Inr h_source
        else if file_path = ''src/latin1.js'' then Inr latin1_source
        else if file_path = ''src/plain.js'' then Inr ''let x = 1;''
        else Inl ''[Errno 2] No such file or directory'')\<rparr>"

definition sample_tree :: tree where
  "sample_tree = Tree [] [''h.js'', ''latin1.js'', ''plain.js'', ''gone.js'']"





text \<open>The exceptions the tree walk raises.\<close>

fun walk_error :: "exn \<Rightarrow> bool" where
  "walk_error (AttributeError m) = True"
| "walk_error (TypeError m) = True"
| "walk_error e = False"

text \<open>
  What holds of the set \<open>api_calls\<close> at every moment: no repetition, and nothing but
  canonical symbols of the catalogue.
\<close>

definition known_calls :: "string list \<Rightarrow> bool" where
  "known_calls api_calls = (distinct api_calls \<and> set api_calls \<subseteq> set lexical_symbols)"

section \<open>Properties of the checker\<close>

subsection \<open>One call\<close>

lemma py_int_18: "py_int ''18'' = Some 18"
  by (simp add: py_int_def strip_def is_space_char_def is_digit_char_def digit_val_def)

lemma check_api_verdict:
  assumes "the_query E api_call new_version library = Some q"
  shows "check_api E api_call old_version new_version library w =
     (case send_query E q w of
        (r, w') \<Rightarrow> Inr (verdict_of E api_call new_version library r, w'))"
proof -
  obtain v n where "encode E (build_context api_call) = Inr v" "py_int new_version = Some n"
    "q = query_of v library n"
    using assms by (auto simp: the_query_def split: sum.splits option.splits)
  then show ?thesis
    by (cases "send_query E q w")
      (auto simp: check_api_def verdict_of_def split: sum.splits list.splits)
qed

lemma the_query_Some:
  assumes "encode E (build_context api_call) = Inr v" and "py_int new_version = Some n"
  shows "the_query E api_call new_version library = Some (query_of v library n)"
  using assms by (simp add: the_query_def)

lemma decide_status:
  "map_of (decide E api_call new_version c) ''status'' =
     Some (S (if candidate_deprecated c \<or> candidate_score c < BREAKING_THRESHOLD
              then ''breaking_change''
              else if candidate_score c < MINOR_THRESHOLD then ''minor_change''
              else ''compatible''))"
  by (simp add: decide_def candidate_deprecated_def candidate_score_def empty_meta_def Let_def
      split: option.splits)

lemma thresholds_are_the_doubles:
  "BREAKING_THRESHOLD = 7656119366529843 / 2 ^ 53"
  "\<bar>BREAKING_THRESHOLD - 85 / 100\<bar> < 1 / 2 ^ 54"
  "MINOR_THRESHOLD = 8556839292003942 / 2 ^ 53"
  "\<bar>MINOR_THRESHOLD - 95 / 100\<bar> < 1 / 2 ^ 54"
  by (simp_all add: BREAKING_THRESHOLD_def MINOR_THRESHOLD_def)

text \<open>
  C1. When the query returns at least one candidate, the verdict is the one the decision
  table gives for the first candidate, whatever the other candidates are: Breaking when the
  candidate is deprecated or its similarity is below the breaking threshold, else Minor
  when the similarity is below the minor threshold, else Compatible. The call sends one
  query.
\<close>

theorem C1_decision_table:
  assumes "encode E (build_context api_call) = Inr v"
    and "py_int new_version = Some n"
    and "index_query E (provider w) (query_of v library n) = (Inr (c # cs), p')"
  shows "\<exists>result.
      check_api E api_call old_version new_version library w
        = Inr (result, \<lparr>provider = p', queries = queries w @ [query_of v library n]\<rparr>)
      \<and> result = decide E api_call new_version c
      \<and> map_of result ''status'' =
          Some (S (if candidate_deprecated c \<or> candidate_score c < BREAKING_THRESHOLD
                   then ''breaking_change''
                   else if candidate_score c < MINOR_THRESHOLD then ''minor_change''
                   else ''compatible''))"
proof -
  have q: "the_query E api_call new_version library = Some (query_of v library n)"
    using assms(1,2) by (rule the_query_Some)
  show ?thesis
    using assms(3)
    by (simp add: check_api_verdict [OF q] send_query_def verdict_of_def decide_status)
qed

text \<open>
  The four rows of the table named by the specification, on the scripted provider:
  0.90 is Minor, 0.60 is Breaking, 0.99 is Compatible, and a deprecated candidate at 0.99
  is Breaking.
\<close>

theorem C1_decision_table_witness:
  "(\<exists>result w'. check_api scripted_env ''ReactDOM.render'' ''17'' ''18'' ''react''
        (script [Inr [scored (90 / 100) False, scored (99 / 100) False]]) = Inr (result, w')
      \<and> map_of result ''status'' = Some (S ''minor_change''))
   \<and> (\<exists>result w'. check_api scripted_env ''ReactDOM.render'' ''17'' ''18'' ''react''
        (script [Inr [scored (60 / 100) False]]) = Inr (result, w')
      \<and> map_of result ''status'' = Some (S ''breaking_change''))
   \<and> (\<exists>result w'. check_api scripted_env ''ReactDOM.render'' ''17'' ''18'' ''react''
        (script [Inr [scored (99 / 100) False]]) = Inr (result, w')
      \<and> map_of result ''status'' = Some (S ''compatible''))
   \<and> (\<exists>result w'. check_api scripted_env ''ReactDOM.render'' ''17'' ''18'' ''react''
        (script [Inr [scored (99 / 100) True]]) = Inr (result, w')
      \<and> map_of result ''status'' = Some (S ''breaking_change''))"
proof -
  have e: "encode scripted_env (build_context ''ReactDOM.render'')
      = Inr (build_context ''ReactDOM.render'')"
    by (simp add: scripted_env_def)
  have i: "\<And>rs. index_query scripted_env (provider (script [Inr rs]))
      (query_of (build_context ''ReactDOM.render'') ''react'' 18) = (Inr rs, [])"
    by (simp add: scripted_env_def script_def)
  have s: "\<And>x d. candidate_score (scored x d) = x" "\<And>x d. candidate_deprecated (scored x d) = d"
    by (simp_all add: candidate_score_def candidate_deprecated_def scored_def empty_meta_def)
  note t = C1_decision_table [OF e py_int_18 i, where old_version = "''17''"]
  have "\<exists>result w'. check_api scripted_env ''ReactDOM.render'' ''17'' ''18'' ''react''
        (script [Inr [scored (90 / 100) False, scored (99 / 100) False]]) = Inr (result, w')
      \<and> map_of result ''status'' = Some (S ''minor_change'')"
    using t [of "scored (90 / 100) False" "[scored (99 / 100) False]"]
    by (simp add: s BREAKING_THRESHOLD_def MINOR_THRESHOLD_def)
  moreover have "\<exists>result w'. check_api scripted_env ''ReactDOM.render'' ''17'' ''18'' ''react''
        (script [Inr [scored (60 / 100) False]]) = Inr (result, w')
      \<and> map_of result ''status'' = Some (S ''breaking_change'')"
    using t [of "scored (60 / 100) False" "[]"]
    by (simp add: s BREAKING_THRESHOLD_def MINOR_THRESHOLD_def)
  moreover have "\<exists>result w'. check_api scripted_env ''ReactDOM.render'' ''17'' ''18'' ''react''
        (script [Inr [scored (99 / 100) False]]) = Inr (result, w')
      \<and> map_of result ''status'' = Some (S ''compatible'')"
    using t [of "scored (99 / 100) False" "[]"]
    by (simp add: s BREAKING_THRESHOLD_def MINOR_THRESHOLD_def)
  moreover have "\<exists>result w'. check_api scripted_env ''ReactDOM.render'' ''17'' ''18'' ''react''
        (script [Inr [scored (99 / 100) True]]) = Inr (result, w')
      \<and> map_of result ''status'' = Some (S ''breaking_change'')"
    using t [of "scored (99 / 100) True" "[]"]
    by (simp add: s BREAKING_THRESHOLD_def MINOR_THRESHOLD_def)
  ultimately show ?thesis by blast
qed

text \<open>
  The catalogue holds one guide for each of four API calls, all for version 18, and the
  nested look-up of \<open>get_migration\<close> finds exactly those.
\<close>

lemma catalog_guides_eq:
  "catalog_guides =
     [(''ReactDOM.render'', ''18'', guide_ReactDOM_render_18),
      (''ReactDOM.hydrate'', ''18'', guide_ReactDOM_hydrate_18),
      (''ReactDOM.unmountComponentAtNode'', ''18'', guide_ReactDOM_unmountComponentAtNode_18),
      (''ReactDOM.findDOMNode'', ''18'', guide_ReactDOM_findDOMNode_18)]"
  by (simp add: catalog_guides_def MIGRATION_GUIDES_def)

lemma get_migration_eq:
  "get_migration api_call new_version =
     (if new_version = ''18'' \<and> api_call = ''ReactDOM.render'' then guide_ReactDOM_render_18
      else if new_version = ''18'' \<and> api_call = ''ReactDOM.hydrate''
        then guide_ReactDOM_hydrate_18
      else if new_version = ''18'' \<and> api_call = ''ReactDOM.unmountComponentAtNode''
        then guide_ReactDOM_unmountComponentAtNode_18
      else if new_version = ''18'' \<and> api_call = ''ReactDOM.findDOMNode''
        then guide_ReactDOM_findDOMNode_18
      else no_guide_message)"
  by (simp add: MIGRATION_GUIDES_def get_migration_def no_guide_message_def)

lemma get_migration_cataloged:
  assumes "(api_call, new_version, g) \<in> set catalog_guides"
  shows "get_migration api_call new_version = g"
proof -
  have "(api_call = ''ReactDOM.render'' \<and> new_version = ''18'' \<and> g = guide_ReactDOM_render_18)
    \<or> (api_call = ''ReactDOM.hydrate'' \<and> new_version = ''18'' \<and> g = guide_ReactDOM_hydrate_18)
    \<or> (api_call = ''ReactDOM.unmountComponentAtNode'' \<and> new_version = ''18''
          \<and> g = guide_ReactDOM_unmountComponentAtNode_18)
    \<or> (api_call = ''ReactDOM.findDOMNode'' \<and> new_version = ''18''
          \<and> g = guide_ReactDOM_findDOMNode_18)"
    using assms unfolding catalog_guides_eq by simp
  then show ?thesis
    unfolding get_migration_eq by (elim disjE conjE) simp_all
qed

lemma get_migration_generic:
  assumes "\<forall>g. (api_call, new_version, g) \<notin> set catalog_guides"
  shows "get_migration api_call new_version = no_guide_message"
proof -
  have "(api_call, new_version, guide_ReactDOM_render_18) \<notin> set catalog_guides"
    using assms by blast
  then have 1: "\<not> (new_version = ''18'' \<and> api_call = ''ReactDOM.render'')"
    unfolding catalog_guides_eq by auto
  have "(api_call, new_version, guide_ReactDOM_hydrate_18) \<notin> set catalog_guides"
    using assms by blast
  then have 2: "\<not> (new_version = ''18'' \<and> api_call = ''ReactDOM.hydrate'')"
    unfolding catalog_guides_eq by auto
  have "(api_call, new_version, guide_ReactDOM_unmountComponentAtNode_18) \<notin> set catalog_guides"
    using assms by blast
  then have 3: "\<not> (new_version = ''18'' \<and> api_call = ''ReactDOM.unmountComponentAtNode'')"
    unfolding catalog_guides_eq by auto
  have "(api_call, new_version, guide_ReactDOM_findDOMNode_18) \<notin> set catalog_guides"
    using assms by blast
  then have 4: "\<not> (new_version = ''18'' \<and> api_call = ''ReactDOM.findDOMNode'')"
    unfolding catalog_guides_eq by auto
  show ?thesis
    unfolding get_migration_eq using 1 2 3 4 by (cases "new_version = ''18''") simp_all
qed

text \<open>
  C2. When the query returns no candidate, the verdict is Breaking with new API
  "NOT FOUND" and similarity 0, and its migration text is the guide of the catalogue for
  this API call and target version when there is one, the generic message otherwise. The
  call sends one query.
\<close>

theorem C2_no_candidates:
  assumes "encode E (build_context api_call) = Inr v"
    and "py_int new_version = Some n"
    and "index_query E (provider w) (query_of v library n) = (Inr [], p')"
  shows "\<exists>result.
      check_api E api_call old_version new_version library w
        = Inr (result, \<lparr>provider = p', queries = queries w @ [query_of v library n]\<rparr>)
      \<and> map_of result ''status'' = Some (S ''breaking_change'')
      \<and> map_of result ''old_api'' = Some (S api_call)
      \<and> map_of result ''new_api'' = Some (S ''NOT FOUND'')
      \<and> map_of result ''similarity'' = Some (F 0)
      \<and> (\<exists>m. map_of result ''migration'' = Some (S m)
            \<and> (\<forall>g. (api_call, new_version, g) \<in> set catalog_guides \<longrightarrow> m = g)
            \<and> ((\<forall>g. (api_call, new_version, g) \<notin> set catalog_guides)
                  \<longrightarrow> m = no_guide_message))"
proof -
  have q: "the_query E api_call new_version library = Some (query_of v library n)"
    using assms(1,2) by (rule the_query_Some)
  have "check_api E api_call old_version new_version library w
      = Inr (verdict_of E api_call new_version library (Inr []),
             \<lparr>provider = p', queries = queries w @ [query_of v library n]\<rparr>)"
    using assms(3) by (simp add: check_api_verdict [OF q] send_query_def)
  moreover have "\<forall>g. (api_call, new_version, g) \<in> set catalog_guides
      \<longrightarrow> get_migration api_call new_version = g"
    by (simp add: get_migration_cataloged)
  moreover have "(\<forall>g. (api_call, new_version, g) \<notin> set catalog_guides)
      \<longrightarrow> get_migration api_call new_version = no_guide_message"
    by (simp add: get_migration_generic)
  ultimately show ?thesis
    by (simp add: verdict_of_def)
qed

text \<open>
  On the scripted provider: \<open>ReactDOM.render\<close> has a guide for version 18 and gets it;
  \<open>useState\<close> has none and gets the generic message.
\<close>

theorem C2_no_candidates_witness:
  "(\<exists>result w'. check_api scripted_env ''ReactDOM.render'' ''17'' ''18'' ''react''
        (script [Inr []]) = Inr (result, w')
      \<and> map_of result ''status'' = Some (S ''breaking_change'')
      \<and> map_of result ''new_api'' = Some (S ''NOT FOUND'')
      \<and> map_of result ''similarity'' = Some (F 0)
      \<and> map_of result ''migration'' = Some (S guide_ReactDOM_render_18))
   \<and> (\<exists>result w'. check_api scripted_env ''useState'' ''17'' ''18'' ''react''
        (script [Inr []]) = Inr (result, w')
      \<and> map_of result ''status'' = Some (S ''breaking_change'')
      \<and> map_of result ''new_api'' = Some (S ''NOT FOUND'')
      \<and> map_of result ''similarity'' = Some (F 0)
      \<and> map_of result ''migration'' = Some (S no_guide_message))"
proof -
  have e: "\<And>a. encode scripted_env (build_context a) = Inr (build_context a)"
    by (simp add: scripted_env_def)
  have i: "\<And>a. index_query scripted_env (provider (script [Inr []]))
      (query_of (build_context a) ''react'' 18) = (Inr [], [])"
    by (simp add: scripted_env_def script_def)
  note t = C2_no_candidates [OF e py_int_18 i, where old_version = "''17''"]
  have g: "(''ReactDOM.render'', ''18'', guide_ReactDOM_render_18) \<in> set catalog_guides"
    unfolding catalog_guides_eq by simp
  have n: "\<forall>g. (''useState'', ''18'', g) \<notin> set catalog_guides"
    unfolding catalog_guides_eq by simp
  have "\<exists>result w'. check_api scripted_env ''ReactDOM.render'' ''17'' ''18'' ''react''
        (script [Inr []]) = Inr (result, w')
      \<and> map_of result ''status'' = Some (S ''breaking_change'')
      \<and> map_of result ''new_api'' = Some (S ''NOT FOUND'')
      \<and> map_of result ''similarity'' = Some (F 0)
      \<and> map_of result ''migration'' = Some (S guide_ReactDOM_render_18)"
  proof -
    obtain result m where
      "check_api scripted_env ''ReactDOM.render'' ''17'' ''18'' ''react'' (script [Inr []])
        = Inr (result, \<lparr>provider = [], queries = queries (script [Inr []])
            @ [query_of (build_context ''ReactDOM.render'') ''react'' 18]\<rparr>)"
      "map_of result ''status'' = Some (S ''breaking_change'')"
      "map_of result ''new_api'' = Some (S ''NOT FOUND'')"
      "map_of result ''similarity'' = Some (F 0)"
      "map_of result ''migration'' = Some (S m)"
      "\<forall>g. (''ReactDOM.render'', ''18'', g) \<in> set catalog_guides \<longrightarrow> m = g"
      using t [of "''ReactDOM.render''"] by blast
    then show ?thesis using g by blast
  qed
  moreover have "\<exists>result w'. check_api scripted_env ''useState'' ''17'' ''18'' ''react''
        (script [Inr []]) = Inr (result, w')
      \<and> map_of result ''status'' = Some (S ''breaking_change'')
      \<and> map_of result ''new_api'' = Some (S ''NOT FOUND'')
      \<and> map_of result ''similarity'' = Some (F 0)
      \<and> map_of result ''migration'' = Some (S no_guide_message)"
  proof -
    obtain result m where
      "check_api scripted_env ''useState'' ''17'' ''18'' ''react'' (script [Inr []])
        = Inr (result, \<lparr>provider = [], queries = queries (script [Inr []])
            @ [query_of (build_context ''useState'') ''react'' 18]\<rparr>)"
      "map_of result ''status'' = Some (S ''breaking_change'')"
      "map_of result ''new_api'' = Some (S ''NOT FOUND'')"
      "map_of result ''similarity'' = Some (F 0)"
      "map_of result ''migration'' = Some (S m)"
      "(\<forall>g. (''useState'', ''18'', g) \<notin> set catalog_guides) \<longrightarrow> m = no_guide_message"
      using t [of "''useState''"] by blast
    then show ?thesis using n by blast
  qed
  ultimately show ?thesis by blast
qed

subsection \<open>The loop over the unique calls\<close>

lemma dict_set_new:
  assumes "k \<notin> fst ` set c"
  shows "dict_set k v c = c @ [(k, v)]"
  using assms by (induction c) auto

lemma check_api_Inr:
  assumes "check_api E api_call old_version new_version library w = Inr x"
  obtains q where "the_query E api_call new_version library = Some q"
  using assms
  by (auto simp: check_api_def the_query_def split: sum.splits option.splits)

lemma check_api_Inl:
  assumes "the_query E api_call new_version library = None"
  shows "\<exists>e. check_api E api_call old_version new_version library w = Inl e"
  using assms
  by (auto simp: check_api_def the_query_def split: sum.splits option.splits)

lemma length_answers: "length (answers E p qs) = length qs"
  by (induction qs arbitrary: p) (auto split: prod.splits)

lemma check_each_Inr:
  assumes "check_each E calls old_version new_version library cache w = Inr (cache', w')"
    and "distinct calls" and "set calls \<inter> fst ` set cache = {}"
  shows "cache' = cache @ verdicts_from E calls new_version library (provider w)
    \<and> queries w' = queries w @ queries_for E calls new_version library
    \<and> (\<forall>s \<in> set calls. the_query E s new_version library \<noteq> None)"
  using assms
proof (induction calls arbitrary: cache w)
  case Nil
  then show ?case by (simp add: verdicts_from_def queries_for_def)
next
  case (Cons s ss)
  from Cons.prems(1) obtain result w1 where
    c: "check_api E s old_version new_version library w = Inr (result, w1)"
    and rest: "check_each E ss old_version new_version library (dict_set s result cache) w1
      = Inr (cache', w')"
    by (auto split: sum.splits)
  from c obtain q where q: "the_query E s new_version library = Some q"
    by (rule check_api_Inr)
  obtain r p1 where a: "index_query E (provider w) q = (r, p1)"
    by (cases "index_query E (provider w) q")
  from c have res: "result = verdict_of E s new_version library r"
    and w1: "w1 = \<lparr>provider = p1, queries = queries w @ [q]\<rparr>"
    by (simp_all add: check_api_verdict [OF q] send_query_def a)
  have new: "s \<notin> fst ` set cache" using Cons.prems(3) by auto
  have ds: "dict_set s result cache = cache @ [(s, result)]"
    using new by (rule dict_set_new)
  have disj: "set ss \<inter> fst ` set (dict_set s result cache) = {}"
    using Cons.prems(2,3) by (auto simp: ds)
  from Cons.IH [OF rest _ disj] Cons.prems(2)
  have ih: "cache' = dict_set s result cache @ verdicts_from E ss new_version library (provider w1)"
    "queries w' = queries w1 @ queries_for E ss new_version library"
    "\<forall>s \<in> set ss. the_query E s new_version library \<noteq> None"
    by simp_all
  have qf: "queries_for E (s # ss) new_version library = q # queries_for E ss new_version library"
    by (simp add: queries_for_def q)
  have vf: "verdicts_from E (s # ss) new_version library (provider w)
      = (s, result) # verdicts_from E ss new_version library p1"
    by (simp add: verdicts_from_def qf a res)
  show ?case
    using ih q by (simp add: ds qf vf w1)
qed

lemma check_each_total:
  assumes "\<forall>s \<in> set calls. the_query E s new_version library \<noteq> None"
  shows "\<exists>x. check_each E calls old_version new_version library cache w = Inr x"
  using assms
proof (induction calls arbitrary: cache w)
  case Nil
  then show ?case by simp
next
  case (Cons s ss)
  then obtain q where q: "the_query E s new_version library = Some q" by auto
  obtain r w1 where "send_query E q w = (r, w1)" by (cases "send_query E q w")
  then have "check_api E s old_version new_version library w
      = Inr (verdict_of E s new_version library r, w1)"
    by (simp add: check_api_verdict [OF q])
  then show ?case using Cons by simp
qed

lemma all_calls_props:
  "distinct (all_calls api_usage)"
  "sorted (all_calls api_usage)"
  "set (all_calls api_usage) = (\<Union>(file_path, calls) \<in> set api_usage. set calls)"
  by (auto simp: all_calls_def)

lemma length_queries_for:
  assumes "\<forall>s \<in> set calls. the_query E s new_version library \<noteq> None"
  shows "length (queries_for E calls new_version library) = length calls"
  using assms by (induction calls) (auto simp: queries_for_def)

lemma map_fst_verdicts_from:
  assumes "\<forall>s \<in> set calls. the_query E s new_version library \<noteq> None"
  shows "map fst (verdicts_from E calls new_version library p) = calls"
proof -
  have "length (answers E p (queries_for E calls new_version library)) = length calls"
    using assms by (simp add: length_answers length_queries_for)
  then show ?thesis
    by (simp add: verdicts_from_def comp_def case_prod_unfold
        flip: map_map [of fst "\<lambda>x. (fst x, verdict_of E (fst x) new_version library (snd x))"])
qed

subsection \<open>Verdicts, fan-out and counts\<close>

lemma verdict_of_status:
  "has_status ''breaking_change'' (verdict_of E s new_version library r)
   \<or> has_status ''minor_change'' (verdict_of E s new_version library r)
   \<or> has_status ''compatible'' (verdict_of E s new_version library r)
   \<or> has_status ''error'' (verdict_of E s new_version library r)"
  by (simp add: verdict_of_def has_status_def decide_status split: sum.splits list.splits)

lemma verdict_of_error:
  "has_status ''error'' (verdict_of E s new_version library r) \<longleftrightarrow> (\<exists>e. r = Inl e)"
  by (simp add: verdict_of_def has_status_def decide_status split: sum.splits list.splits)

lemma decide_api:
  "entry_api (decide E api_call new_version c) = Some (S api_call)"
  by (simp add: decide_def entry_api_def Let_def)

lemma verdict_of_api:
  "entry_api (verdict_of E s new_version library r) = Some (S s)"
  by (simp add: verdict_of_def decide_api split: sum.splits list.splits)
    (simp add: entry_api_def)

lemma entry_api_file: "entry_api ((''file'', v) # result) = entry_api result"
  by (simp add: entry_api_def split: option.splits)

lemma has_status_file: "has_status st ((''file'', v) # result) = has_status st result"
  by (simp add: has_status_def)

lemma has_status_unique:
  assumes "has_status st e" and "has_status st' e"
  shows "st = st'"
  using assms by (simp add: has_status_def)

text \<open>A cache all of whose results are verdicts of \<open>check_api\<close>.\<close>

lemma verdicts_from_values:
  assumes "(s, result) \<in> set (verdicts_from E calls new_version library p)"
  shows "\<exists>r. result = verdict_of E s new_version library r"
  using assms by (auto simp: verdicts_from_def dest: set_zip_leftD)

lemma get_status_verdict:
  "get_status (verdict_of E s new_version library r)
     = Inr (S (if has_status ''breaking_change'' (verdict_of E s new_version library r)
               then ''breaking_change''
               else if has_status ''minor_change'' (verdict_of E s new_version library r)
               then ''minor_change''
               else if has_status ''error'' (verdict_of E s new_version library r)
               then ''error'' else ''compatible''))"
  using verdict_of_status [of E s new_version library r]
  by (auto simp: get_status_def has_status_def)

lemma count_status_verdicts:
  assumes "\<forall>result \<in> set rs. \<exists>s r. result = verdict_of E s new_version library r"
  shows "count_status st rs = Inr (length (filter (has_status st) rs))"
  using assms
proof (induction rs)
  case Nil
  then show ?case by simp
next
  case (Cons x rs)
  then obtain s r where x: "x = verdict_of E s new_version library r" by auto
  have "get_status x = Inr (S st) \<longleftrightarrow> has_status st x"
    by (auto simp: get_status_def has_status_def split: option.splits)
  moreover obtain v where "get_status x = Inr v"
    unfolding x get_status_verdict by blast
  ultimately show ?case using Cons by auto
qed

lemma count_partition:
  assumes "\<forall>result \<in> set rs. \<exists>s r. result = verdict_of E s new_version library r"
  shows "length (filter (has_status ''breaking_change'') rs)
       + length (filter (has_status ''minor_change'') rs)
       + length (filter (has_status ''compatible'') rs)
       + length (filter (has_status ''error'') rs) = length rs"
  using assms
proof (induction rs)
  case Nil
  then show ?case by simp
next
  case (Cons x rs)
  then obtain s r where x: "x = verdict_of E s new_version library r" by auto
  have "map_of x ''status'' = Some (S ''breaking_change'')
      \<or> map_of x ''status'' = Some (S ''minor_change'')
      \<or> map_of x ''status'' = Some (S ''compatible'')
      \<or> map_of x ''status'' = Some (S ''error'')"
    using verdict_of_status [of E s new_version library r]
    unfolding x has_status_def by blast
  then show ?case
    using Cons by (auto simp: has_status_def)
qed

lemma add_entries_Nil: "add_entries bs [] = bs"
  by (simp add: add_entries_def)

lemma add_entries_append: "add_entries (add_entries bs es) es' = add_entries bs (es @ es')"
  by (simp add: add_entries_def)

lemma place_verdict:
  assumes "map_of cache s = Some (verdict_of E s' new_version library r)"
  shows "place cache file_path s bs
     = Inr (add_entries bs [(''file'', S file_path) # verdict_of E s' new_version library r])"
proof -
  let ?v = "verdict_of E s' new_version library r"
  consider "has_status ''breaking_change'' ?v" | "has_status ''minor_change'' ?v"
    | "has_status ''compatible'' ?v" | "has_status ''error'' ?v"
    using verdict_of_status [of E s' new_version library r] by blast
  then show ?thesis
  proof cases
    case 1
    then have "map_of ?v ''status'' = Some (S ''breaking_change'')"
      by (simp add: has_status_def)
    then show ?thesis
      using assms by (simp add: place_def get_status_def add_entries_def has_status_def)
  next
    case 2
    then have "map_of ?v ''status'' = Some (S ''minor_change'')"
      by (simp add: has_status_def)
    then show ?thesis
      using assms by (simp add: place_def get_status_def add_entries_def has_status_def)
  next
    case 3
    then have "map_of ?v ''status'' = Some (S ''compatible'')"
      by (simp add: has_status_def)
    then show ?thesis
      using assms by (simp add: place_def get_status_def add_entries_def has_status_def)
  next
    case 4
    then have "map_of ?v ''status'' = Some (S ''error'')"
      by (simp add: has_status_def)
    then show ?thesis
      using assms by (simp add: place_def get_status_def add_entries_def has_status_def)
  qed
qed

lemma place_calls_verdicts:
  assumes "\<forall>s \<in> set calls. \<exists>s' r. map_of cache s = Some (verdict_of E s' new_version library r)"
  shows "place_calls cache file_path calls bs
     = Inr (add_entries bs (fan_out cache [(file_path, calls)]))"
  using assms
proof (induction calls arbitrary: bs)
  case Nil
  then show ?case by (simp add: fan_out_def add_entries_Nil)
next
  case (Cons s ss)
  then obtain s' r where c: "map_of cache s = Some (verdict_of E s' new_version library r)"
    by auto
  have "place_calls cache file_path ss
        (add_entries bs [(''file'', S file_path) # verdict_of E s' new_version library r])
      = Inr (add_entries
          (add_entries bs [(''file'', S file_path) # verdict_of E s' new_version library r])
          (fan_out cache [(file_path, ss)]))"
    using Cons by simp
  then show ?case
    by (simp add: place_verdict [OF c] add_entries_append) (simp add: fan_out_def c)
qed

lemma fan_out_Cons:
  "fan_out cache ((file_path, calls) # files)
     = fan_out cache [(file_path, calls)] @ fan_out cache files"
  by (simp add: fan_out_def)

lemma place_files_verdicts:
  assumes "\<forall>(file_path, calls) \<in> set api_usage. \<forall>s \<in> set calls.
      \<exists>s' r. map_of cache s = Some (verdict_of E s' new_version library r)"
  shows "place_files cache api_usage bs = Inr (add_entries bs (fan_out cache api_usage))"
  using assms
proof (induction api_usage arbitrary: bs)
  case Nil
  then show ?case by (simp add: fan_out_def add_entries_Nil)
next
  case (Cons fc files)
  obtain file_path calls where fc: "fc = (file_path, calls)" by (cases fc)
  have 1: "place_calls cache file_path calls bs
      = Inr (add_entries bs (fan_out cache [(file_path, calls)]))"
    using Cons.prems by (intro place_calls_verdicts) (auto simp: fc)
  have 2: "place_files cache files (add_entries bs (fan_out cache [(file_path, calls)]))
      = Inr (add_entries (add_entries bs (fan_out cache [(file_path, calls)]))
              (fan_out cache files))"
    using Cons.prems by (intro Cons.IH) auto
  show ?case
    unfolding fc fan_out_Cons [of cache file_path calls files]
    by (simp add: 1 2 add_entries_append)
qed

lemma length_fan_out_api:
  assumes "\<forall>(file_path, calls) \<in> set api_usage. \<forall>s \<in> set calls.
      \<exists>r. map_of cache s = Some (verdict_of E s new_version library r)"
  shows "length (filter (\<lambda>e. entry_api e = Some (S api_call)) (fan_out cache api_usage))
     = occurrences api_usage api_call"
  using assms
proof (induction api_usage)
  case Nil
  then show ?case by (simp add: fan_out_def occurrences_def)
next
  case (Cons fc files)
  obtain file_path calls where fc: "fc = (file_path, calls)" by (cases fc)
  have "\<forall>s \<in> set calls. \<exists>r. map_of cache s = Some (verdict_of E s new_version library r)"
    using Cons.prems by (auto simp: fc)
  then have "length (filter (\<lambda>e. entry_api e = Some (S api_call))
        (fan_out cache [(file_path, calls)])) = count_list calls api_call"
  proof (induction calls)
    case Nil
    then show ?case by (simp add: fan_out_def)
  next
    case (Cons s ss)
    then obtain r where "map_of cache s = Some (verdict_of E s new_version library r)"
      by auto
    moreover have "length (filter (\<lambda>e. entry_api e = Some (S api_call))
        (fan_out cache [(file_path, ss)])) = count_list ss api_call"
      using Cons by simp
    ultimately show ?case
      by (auto simp: fan_out_def entry_api_file verdict_of_api)
  qed
  moreover have "length (filter (\<lambda>e. entry_api e = Some (S api_call)) (fan_out cache files))
      = occurrences files api_call"
    using Cons by auto
  ultimately show ?case
    unfolding fc fan_out_Cons [of cache file_path calls files]
    by (simp add: occurrences_def)
qed

lemma occurrences_distinct:
  assumes "\<forall>(file_path, calls) \<in> set api_usage. distinct calls"
  shows "occurrences api_usage api_call
     = length (filter (\<lambda>(file_path, calls). api_call \<in> set calls) api_usage)"
  using assms
proof (induction api_usage)
  case Nil
  then show ?case by (simp add: occurrences_def)
next
  case (Cons fc files)
  obtain file_path calls where fc: "fc = (file_path, calls)" by (cases fc)
  have "distinct calls" using Cons.prems by (simp add: fc)
  then have "count_list calls api_call = (if api_call \<in> set calls then 1 else 0)"
    by (induction calls) auto
  moreover have "occurrences files api_call
      = length (filter (\<lambda>(file_path, calls). api_call \<in> set calls) files)"
    using Cons by simp
  ultimately show ?case
    by (simp add: occurrences_def fc)
qed

subsection \<open>The whole aggregation\<close>

lemma verdicts_lookup:
  assumes ok: "\<forall>s \<in> set calls. the_query E s new_version library \<noteq> None"
    and s: "s \<in> set calls"
  shows "\<exists>r. map_of (verdicts_from E calls new_version library p) s
      = Some (verdict_of E s new_version library r)"
proof -
  let ?c = "verdicts_from E calls new_version library p"
  have "s \<in> fst ` set ?c"
    using map_fst_verdicts_from [OF ok, of p] s by (metis set_map)
  then obtain result where m: "map_of ?c s = Some result"
    by (metis map_of_eq_None_iff not_Some_eq)
  then have "(s, result) \<in> set ?c" by (rule map_of_SomeD)
  from verdicts_from_values [OF this]
  obtain r where "result = verdict_of E s new_version library r" ..
  then show ?thesis using m by auto
qed

lemma check_project_ok:
  assumes "check_project E api_usage old_version new_version library w = Inr x"
  shows "\<forall>s \<in> set (all_calls api_usage). the_query E s new_version library \<noteq> None"
proof -
  obtain cache w' where
    "check_each E (all_calls api_usage) old_version new_version library [] w = Inr (cache, w')"
    using assms by (auto simp: check_project_def split: sum.splits)
  from check_each_Inr [OF this] show ?thesis
    by (simp add: all_calls_props)
qed

lemma check_project_eq:
  assumes ok: "\<forall>s \<in> set (all_calls api_usage). the_query E s new_version library \<noteq> None"
  shows "\<exists>w'. check_project E api_usage old_version new_version library w
        = Inr (report_of (verdicts E api_usage new_version library (provider w)) api_usage, w')
      \<and> queries w' = queries w @ queries_for E (all_calls api_usage) new_version library"
proof -
  let ?calls = "all_calls api_usage"
  let ?cache = "verdicts E api_usage new_version library (provider w)"
  obtain cache w' where
    ce: "check_each E ?calls old_version new_version library [] w = Inr (cache, w')"
    using check_each_total [OF ok] by (metis surj_pair)
  from check_each_Inr [OF ce] have
    cache: "cache = ?cache"
    and qs: "queries w' = queries w @ queries_for E ?calls new_version library"
    by (simp_all add: all_calls_props verdicts_def)
  have look: "\<forall>(file_path, calls) \<in> set api_usage. \<forall>s \<in> set calls.
      \<exists>s' r. map_of ?cache s = Some (verdict_of E s' new_version library r)"
  proof (clarify)
    fix file_path calls s
    assume "(file_path, calls) \<in> set api_usage" "s \<in> set calls"
    then have "s \<in> set ?calls" by (auto simp: all_calls_props)
    from verdicts_lookup [OF ok this]
    show "\<exists>s' r. map_of ?cache s = Some (verdict_of E s' new_version library r)"
      unfolding verdicts_def by blast
  qed
  have pf: "place_files ?cache api_usage
        \<lparr>breaking_changes = [], minor_changes = [], compatible = [], errors = []\<rparr>
      = Inr (add_entries
          \<lparr>breaking_changes = [], minor_changes = [], compatible = [], errors = []\<rparr>
          (fan_out ?cache api_usage))"
    using look by (rule place_files_verdicts)
  have vals: "\<forall>result \<in> set (map snd ?cache). \<exists>s r. result = verdict_of E s new_version library r"
    unfolding verdicts_def using verdicts_from_values by fastforce
  have len: "length ?cache = length ?calls"
    using map_fst_verdicts_from [OF ok, of "provider w"]
    unfolding verdicts_def by (metis length_map)
  have sm: "summarise (length ?calls) ?cache = Inr (summary (report_of ?cache api_usage))"
    by (simp add: summarise_def report_of_def count_status_verdicts [OF vals] len)
  have "check_project E api_usage old_version new_version library w
      = Inr (report_of ?cache api_usage, w')"
    using ce unfolding cache
    by (simp add: check_project_def pf sm) (simp add: add_entries_def report_of_def)
  then show ?thesis using qs by blast
qed

lemma check_project_total:
  "(\<exists>x. check_project E api_usage old_version new_version library w = Inr x)
     \<longleftrightarrow> (\<forall>s \<in> set (all_calls api_usage). the_query E s new_version library \<noteq> None)"
  using check_project_ok check_project_eq by (metis (no_types, lifting))

lemma fan_out_entry:
  assumes "e \<in> set (fan_out cache api_usage)"
  shows "\<exists>file_path calls s. (file_path, calls) \<in> set api_usage \<and> s \<in> set calls
    \<and> e = (''file'', S file_path) # (case map_of cache s of Some result \<Rightarrow> result | None \<Rightarrow> [])"
  using assms by (auto simp: fan_out_def)

lemma filter_four_lists:
  assumes "\<forall>e \<in> set es. \<exists>file_path s r.
      e = (''file'', S file_path) # verdict_of E s new_version library r"
  shows "length (filter P (filter (has_status ''breaking_change'') es
           @ filter (has_status ''minor_change'') es
           @ filter (has_status ''compatible'') es
           @ filter (has_status ''error'') es)) = length (filter P es)"
  using assms
proof (induction es)
  case Nil
  then show ?case by simp
next
  case (Cons e es)
  then obtain file_path s r where
    e: "e = (''file'', S file_path) # verdict_of E s new_version library r" by auto
  have st: "map_of e ''status'' = Some (S ''breaking_change'')
      \<or> map_of e ''status'' = Some (S ''minor_change'')
      \<or> map_of e ''status'' = Some (S ''compatible'')
      \<or> map_of e ''status'' = Some (S ''error'')"
    using verdict_of_status [of E s new_version library r]
    unfolding e by (simp add: has_status_def)
  have ih: "length (filter P (filter (has_status ''breaking_change'') es
           @ filter (has_status ''minor_change'') es
           @ filter (has_status ''compatible'') es
           @ filter (has_status ''error'') es)) = length (filter P es)"
    using Cons by simp
  show ?case
    using st ih by (auto simp: has_status_def)
qed

lemma map_of_zip_map:
  "map_of (map (\<lambda>(k, v). (k, f k v)) xs) k = map_option (f k) (map_of xs k)"
  by (induction xs) auto

lemma verdicts_answer:
  "map_of (verdicts E api_usage new_version library p) s
     = map_option (verdict_of E s new_version library)
         (answer_to E api_usage new_version library p s)"
  by (simp add: verdicts_def verdicts_from_def answer_to_def map_of_zip_map)

lemma fan_out_verdicts:
  assumes ok: "\<forall>s \<in> set (all_calls api_usage). the_query E s new_version library \<noteq> None"
    and e: "e \<in> set (fan_out (verdicts E api_usage new_version library p) api_usage)"
  shows "\<exists>file_path s r. e = (''file'', S file_path) # verdict_of E s new_version library r"
proof -
  from fan_out_entry [OF e] obtain file_path calls s where
    m: "(file_path, calls) \<in> set api_usage" "s \<in> set calls"
    and e': "e = (''file'', S file_path) #
      (case map_of (verdicts E api_usage new_version library p) s of
         Some result \<Rightarrow> result | None \<Rightarrow> [])"
    by blast
  from m have "s \<in> set (all_calls api_usage)" by (auto simp: all_calls_props)
  from verdicts_lookup [OF ok this, of p] obtain r where
    "map_of (verdicts E api_usage new_version library p) s
      = Some (verdict_of E s new_version library r)"
    unfolding verdicts_def by blast
  then show ?thesis using e' by auto
qed

lemma py_int_17: "py_int ''17'' = Some 17"
  by (simp add: py_int_def strip_def is_space_char_def is_digit_char_def digit_val_def)

lemma scripted_query:
  "the_query scripted_env s ''18'' library = Some (query_of (build_context s) library 18)"
  by (simp add: the_query_def scripted_env_def py_int_18)

lemma all_calls_five: "all_calls five_files = [''useState'']"
  by (simp add: all_calls_def five_files_def)

lemma all_calls_two: "all_calls two_files = [''ReactDOM.render'', ''useState'']"
  by (simp add: all_calls_def two_files_def)

subsection \<open>Claims about the aggregation\<close>

lemma check_project_report:
  assumes "check_project E api_usage old_version new_version library w = Inr (rep, w')"
  shows "rep = report_of (verdicts E api_usage new_version library (provider w)) api_usage"
    and "queries w' = queries w @ queries_for E (all_calls api_usage) new_version library"
    and "\<forall>s \<in> set (all_calls api_usage). the_query E s new_version library \<noteq> None"
proof -
  show ok: "\<forall>s \<in> set (all_calls api_usage). the_query E s new_version library \<noteq> None"
    using assms by (rule check_project_ok)
  from check_project_eq [OF ok, of old_version w] assms
  show "rep = report_of (verdicts E api_usage new_version library (provider w)) api_usage"
    and "queries w' = queries w @ queries_for E (all_calls api_usage) new_version library"
    by auto
qed

lemma length_verdicts:
  assumes "\<forall>s \<in> set (all_calls api_usage). the_query E s new_version library \<noteq> None"
  shows "map fst (verdicts E api_usage new_version library p) = all_calls api_usage"
  unfolding verdicts_def using assms by (rule map_fst_verdicts_from)

lemma verdicts_values:
  "\<forall>result \<in> set (map snd (verdicts E api_usage new_version library p)).
     \<exists>s r. result = verdict_of E s new_version library r"
  unfolding verdicts_def using verdicts_from_values by fastforce

text \<open>
  C5. In a report of \<open>check_project\<close> the four counts of the summary are counts over the
  cache of verdicts, which holds one verdict for each unique API call of the scan result
  (not one for each occurrence), and they add up to the total, the number of unique API
  calls.
\<close>

theorem C5_summary_counts:
  assumes "check_project E api_usage old_version new_version library w = Inr (rep, w')"
  shows "breaking (summary rep) + minor (summary rep) + compatible_count (summary rep)
        + error_count (summary rep) = total_apis (summary rep)
    \<and> total_apis (summary rep) = card (\<Union>(file_path, calls) \<in> set api_usage. set calls)
    \<and> map fst (verdicts E api_usage new_version library (provider w)) = all_calls api_usage
    \<and> distinct (all_calls api_usage)
    \<and> breaking (summary rep) = length (filter (has_status ''breaking_change'')
          (map snd (verdicts E api_usage new_version library (provider w))))
    \<and> minor (summary rep) = length (filter (has_status ''minor_change'')
          (map snd (verdicts E api_usage new_version library (provider w))))
    \<and> compatible_count (summary rep) = length (filter (has_status ''compatible'')
          (map snd (verdicts E api_usage new_version library (provider w))))
    \<and> error_count (summary rep) = length (filter (has_status ''error'')
          (map snd (verdicts E api_usage new_version library (provider w))))"
proof -
  let ?cache = "verdicts E api_usage new_version library (provider w)"
  note r = check_project_report [OF assms]
  have keys: "map fst ?cache = all_calls api_usage"
    using r(3) by (rule length_verdicts)
  then have len: "length ?cache = length (all_calls api_usage)"
    by (metis length_map)
  have "length (all_calls api_usage) = card (set (all_calls api_usage))"
    by (simp add: distinct_card all_calls_props(1))
  then have total: "length ?cache = card (\<Union>(file_path, calls) \<in> set api_usage. set calls)"
    using len by (simp add: all_calls_props(3))
  have sum: "length (filter (has_status ''breaking_change'') (map snd ?cache))
       + length (filter (has_status ''minor_change'') (map snd ?cache))
       + length (filter (has_status ''compatible'') (map snd ?cache))
       + length (filter (has_status ''error'') (map snd ?cache)) = length ?cache"
    using count_partition [OF verdicts_values, of E api_usage new_version library "provider w"]
    by simp
  show ?thesis
    unfolding r(1) using sum total keys all_calls_props(1) [of api_usage]
    by (simp add: report_of_def)
qed

lemma scripted_ok: "\<forall>s \<in> set calls. the_query scripted_env s ''18'' library \<noteq> None"
  by (simp add: scripted_query)

lemma verdicts_five:
  "verdicts scripted_env five_files ''18'' ''react'' (r # rs)
     = [(''useState'', verdict_of scripted_env ''useState'' ''18'' ''react'' r)]"
  by (simp add: verdicts_def verdicts_from_def all_calls_five queries_for_def scripted_query)
    (simp add: scripted_env_def)

lemma scored_fields:
  "candidate_score (scored x d) = x" "candidate_deprecated (scored x d) = d"
  by (simp_all add: candidate_score_def candidate_deprecated_def scored_def empty_meta_def)

lemma status_scored:
  "has_status st (verdict_of E s new_version library (Inr (scored x d # cs)))
     \<longleftrightarrow> st = (if d \<or> x < BREAKING_THRESHOLD then ''breaking_change''
               else if x < MINOR_THRESHOLD then ''minor_change'' else ''compatible'')"
  by (auto simp: verdict_of_def has_status_def decide_status scored_fields)

lemma status_failed:
  "has_status st (verdict_of E s new_version library (Inl e)) \<longleftrightarrow> st = ''error''"
  by (auto simp: verdict_of_def has_status_def)

text \<open>
  \<open>useState\<close> is used in five files and its best match scores 0.60: the summary counts
  one breaking change out of one API call, and the list of breaking changes has five
  entries.
\<close>

theorem C5_summary_counts_witness:
  "\<exists>rep w'. check_project scripted_env five_files ''17'' ''18'' ''react''
       (script [Inr [scored (3 / 5) False]]) = Inr (rep, w')
     \<and> summary rep = \<lparr>total_apis = 1, breaking = 1, minor = 0, compatible_count = 0,
          error_count = 0\<rparr>
     \<and> length (breaking_changes rep) = 5"
proof -
  let ?w = "script [Inr [scored (3 / 5) False]]"
  obtain rep w' where
    c: "check_project scripted_env five_files ''17'' ''18'' ''react'' ?w = Inr (rep, w')"
    using check_project_eq [OF scripted_ok] by blast
  have v: "verdicts scripted_env five_files ''18'' ''react'' (provider ?w)
      = [(''useState'', verdict_of scripted_env ''useState'' ''18'' ''react''
            (Inr [scored (3 / 5) False]))]"
    by (simp add: script_def verdicts_five)
  have b: "\<And>st E s. has_status st (verdict_of E s ''18'' ''react''
        (Inr [scored (3 / 5) False])) \<longleftrightarrow> st = ''breaking_change''"
    by (simp add: status_scored BREAKING_THRESHOLD_def)
  from C5_summary_counts [OF c]
  have "total_apis (summary rep) = 1" "breaking (summary rep) = 1" "minor (summary rep) = 0"
    "compatible_count (summary rep) = 0" "error_count (summary rep) = 0"
    unfolding v by (simp_all add: b all_calls_five)
  then have s: "summary rep = \<lparr>total_apis = 1, breaking = 1, minor = 0, compatible_count = 0,
      error_count = 0\<rparr>"
    by simp
  have "rep = report_of (verdicts scripted_env five_files ''18'' ''react'' (provider ?w))
      five_files"
    using c by (rule check_project_report(1))
  then have "length (breaking_changes rep) = 5"
    unfolding v by (simp add: report_of_def fan_out_def five_files_def has_status_file b)
  then show ?thesis using c s by blast
qed

text \<open>
  C4. An aggregation that returns a report has sent the provider one query for each unique
  API call of the scan result, in sorted order, and nothing else; its cache holds one
  verdict for each of them. Every entry of the four lists is the cached verdict of its API
  call with the file path in front, so the entries of one API call differ in the file path
  only, and an API call has as many entries as it has occurrences in the scan result: as
  many as there are files that contain it, when no file lists a call twice.
\<close>

theorem C4_once_per_unique_call:
  assumes "check_project E api_usage old_version new_version library w = Inr (rep, w')"
  shows "distinct (all_calls api_usage)
    \<and> set (all_calls api_usage) = (\<Union>(file_path, calls) \<in> set api_usage. set calls)
    \<and> queries w' = queries w @ queries_for E (all_calls api_usage) new_version library
    \<and> length (queries_for E (all_calls api_usage) new_version library)
          = length (all_calls api_usage)
    \<and> map fst (verdicts E api_usage new_version library (provider w)) = all_calls api_usage
    \<and> rep = report_of (verdicts E api_usage new_version library (provider w)) api_usage
    \<and> (\<forall>e \<in> set (all_entries rep). \<exists>file_path calls s result.
          (file_path, calls) \<in> set api_usage \<and> s \<in> set calls
          \<and> map_of (verdicts E api_usage new_version library (provider w)) s = Some result
          \<and> entry_api result = Some (S s)
          \<and> e = (''file'', S file_path) # result)
    \<and> (\<forall>s. length (filter (\<lambda>e. entry_api e = Some (S s)) (all_entries rep))
          = occurrences api_usage s)
    \<and> ((\<forall>(file_path, calls) \<in> set api_usage. distinct calls) \<longrightarrow>
          (\<forall>s. length (filter (\<lambda>e. entry_api e = Some (S s)) (all_entries rep))
            = length (filter (\<lambda>(file_path, calls). s \<in> set calls) api_usage)))"
proof -
  let ?cache = "verdicts E api_usage new_version library (provider w)"
  note r = check_project_report [OF assms]
  have keys: "map fst ?cache = all_calls api_usage"
    using r(3) by (rule length_verdicts)
  have nq: "length (queries_for E (all_calls api_usage) new_version library)
      = length (all_calls api_usage)"
    using r(3) by (rule length_queries_for)
  have look: "\<And>file_path calls s. (file_path, calls) \<in> set api_usage \<Longrightarrow> s \<in> set calls
      \<Longrightarrow> \<exists>r. map_of ?cache s = Some (verdict_of E s new_version library r)"
  proof -
    fix file_path calls s
    assume "(file_path, calls) \<in> set api_usage" "s \<in> set calls"
    then have "s \<in> set (all_calls api_usage)" by (auto simp: all_calls_props)
    from verdicts_lookup [OF r(3) this, of "provider w"]
    show "\<exists>r. map_of ?cache s = Some (verdict_of E s new_version library r)"
      unfolding verdicts_def .
  qed
  have fo: "\<forall>e \<in> set (fan_out ?cache api_usage). \<exists>file_path s r.
      e = (''file'', S file_path) # verdict_of E s new_version library r"
    using fan_out_verdicts [OF r(3)] by blast
  have sub: "set (all_entries rep) \<subseteq> set (fan_out ?cache api_usage)"
    unfolding r(1) by (auto simp: all_entries_def report_of_def)
  have ent: "\<forall>e \<in> set (all_entries rep). \<exists>file_path calls s result.
          (file_path, calls) \<in> set api_usage \<and> s \<in> set calls
          \<and> map_of ?cache s = Some result
          \<and> entry_api result = Some (S s)
          \<and> e = (''file'', S file_path) # result"
  proof
    fix e
    assume "e \<in> set (all_entries rep)"
    then have "e \<in> set (fan_out ?cache api_usage)" using sub by blast
    from fan_out_entry [OF this] obtain file_path calls s where
      m: "(file_path, calls) \<in> set api_usage" "s \<in> set calls"
      and e: "e = (''file'', S file_path) #
        (case map_of ?cache s of Some result \<Rightarrow> result | None \<Rightarrow> [])"
      by blast
    from look [OF m] obtain r where
      c: "map_of ?cache s = Some (verdict_of E s new_version library r)" by blast
    have "entry_api (verdict_of E s new_version library r) = Some (S s)"
      by (rule verdict_of_api)
    with m c e show "\<exists>file_path calls s result.
          (file_path, calls) \<in> set api_usage \<and> s \<in> set calls
          \<and> map_of ?cache s = Some result
          \<and> entry_api result = Some (S s)
          \<and> e = (''file'', S file_path) # result"
      by auto
  qed
  have cnt: "\<And>s. length (filter (\<lambda>e. entry_api e = Some (S s)) (all_entries rep))
      = occurrences api_usage s"
  proof -
    fix s
    have "length (filter (\<lambda>e. entry_api e = Some (S s)) (all_entries rep))
        = length (filter (\<lambda>e. entry_api e = Some (S s)) (fan_out ?cache api_usage))"
      unfolding r(1) all_entries_def report_of_def
      using filter_four_lists [OF fo] by simp
    also have "\<dots> = occurrences api_usage s"
      by (rule length_fan_out_api) (use look in blast)
    finally show "length (filter (\<lambda>e. entry_api e = Some (S s)) (all_entries rep))
      = occurrences api_usage s" .
  qed
  have dis: "(\<forall>(file_path, calls) \<in> set api_usage. distinct calls) \<longrightarrow>
          (\<forall>s. length (filter (\<lambda>e. entry_api e = Some (S s)) (all_entries rep))
            = length (filter (\<lambda>(file_path, calls). s \<in> set calls) api_usage))"
    using cnt occurrences_distinct by simp
  show ?thesis
    using all_calls_props(1,3) [of api_usage] r(1,2) nq keys ent cnt dis
    by blast
qed

text \<open>
  \<open>useState\<close> in five files, best match at 0.97: one query is sent, and the report has
  five entries for the call, the same verdict with five file paths.
\<close>

theorem C4_once_per_unique_call_witness:
  "\<exists>rep w'. check_project scripted_env five_files ''17'' ''18'' ''react''
       (script [Inr [scored (97 / 100) False]]) = Inr (rep, w')
     \<and> queries w' = [query_of (build_context ''useState'') ''react'' 18]
     \<and> length (filter (\<lambda>e. entry_api e = Some (S ''useState'')) (all_entries rep)) = 5
     \<and> compatible rep =
          map (\<lambda>file_path. (''file'', S file_path) #
                 verdict_of scripted_env ''useState'' ''18'' ''react''
                   (Inr [scored (97 / 100) False]))
            [''src/a.js'', ''src/b.js'', ''src/c.js'', ''src/d.js'', ''src/e.js'']"
proof -
  let ?w = "script [Inr [scored (97 / 100) False]]"
  obtain rep w' where
    c: "check_project scripted_env five_files ''17'' ''18'' ''react'' ?w = Inr (rep, w')"
    using check_project_eq [OF scripted_ok] by blast
  have v: "verdicts scripted_env five_files ''18'' ''react'' (provider ?w)
      = [(''useState'', verdict_of scripted_env ''useState'' ''18'' ''react''
            (Inr [scored (97 / 100) False]))]"
    by (simp add: script_def verdicts_five)
  have b: "\<And>st E s. has_status st (verdict_of E s ''18'' ''react''
        (Inr [scored (97 / 100) False])) \<longleftrightarrow> st = ''compatible''"
    by (simp add: status_scored BREAKING_THRESHOLD_def MINOR_THRESHOLD_def)
  have d: "\<forall>(file_path, calls) \<in> set five_files. distinct calls"
    by (simp add: five_files_def)
  note t = C4_once_per_unique_call [OF c]
  have q: "queries w' = [query_of (build_context ''useState'') ''react'' 18]"
    using t by (simp add: all_calls_five queries_for_def scripted_query script_def)
  have "length (filter (\<lambda>e. entry_api e = Some (S ''useState'')) (all_entries rep))
      = length (filter (\<lambda>(file_path, calls). ''useState'' \<in> set calls) five_files)"
    using t d by blast
  then have n: "length (filter (\<lambda>e. entry_api e = Some (S ''useState'')) (all_entries rep)) = 5"
    by (simp add: five_files_def)
  have "rep = report_of (verdicts scripted_env five_files ''18'' ''react'' (provider ?w))
      five_files"
    using t by blast
  then have "compatible rep =
          map (\<lambda>file_path. (''file'', S file_path) #
                 verdict_of scripted_env ''useState'' ''18'' ''react''
                   (Inr [scored (97 / 100) False]))
            [''src/a.js'', ''src/b.js'', ''src/c.js'', ''src/d.js'', ''src/e.js'']"
    unfolding v by (simp add: report_of_def fan_out_def five_files_def has_status_file b)
  then show ?thesis using c q n by blast
qed

lemma fan_out_member:
  assumes "(file_path, calls) \<in> set api_usage" and "s \<in> set calls"
    and "map_of cache s = Some result"
  shows "(''file'', S file_path) # result \<in> set (fan_out cache api_usage)"
  using assms by (force simp: fan_out_def)

lemma report_of_member:
  assumes "(''file'', S file_path) # verdict_of E s new_version library r
      \<in> set (fan_out cache api_usage)"
  shows "(''file'', S file_path) # verdict_of E s new_version library r
      \<in> set (all_entries (report_of cache api_usage))"
  using assms verdict_of_status [of E s new_version library r]
  by (auto simp: all_entries_def report_of_def has_status_file)

text \<open>
  C3. When the query of a call raises, \<open>check_api\<close> returns the error verdict with the
  message of the exception, having sent that one query and no other. In an aggregation
  (where the embedding engine returns for every call and the version parses, so that
  nothing is raised outside the queries) a report is returned whatever the provider
  answers: every occurrence of every API call has its entry, made from the answer to the
  query of that call, and the entry is an error entry exactly when that answer was an
  exception.
\<close>

theorem C3_provider_failure:
  "(\<forall>v n msg p'.
      encode E (build_context api_call) = Inr v \<and> py_int new_version = Some n
      \<and> index_query E (provider w) (query_of v library n) = (Inl msg, p')
      \<longrightarrow> check_api E api_call old_version new_version library w
          = Inr ([(''status'', S ''error''), (''api'', S api_call), (''error'', S msg)],
                 \<lparr>provider = p', queries = queries w @ [query_of v library n]\<rparr>))
   \<and> ((\<exists>n. py_int new_version = Some n)
        \<and> (\<forall>s \<in> set (all_calls api_usage). \<exists>v. encode E (build_context s) = Inr v)
      \<longrightarrow> (\<exists>rep w'.
            check_project E api_usage old_version new_version library w = Inr (rep, w')
          \<and> length (queries w') = length (queries w) + length (all_calls api_usage)
          \<and> (\<forall>(file_path, calls) \<in> set api_usage. \<forall>s \<in> set calls. \<exists>r.
                answer_to E api_usage new_version library (provider w) s = Some r
              \<and> (''file'', S file_path) # verdict_of E s new_version library r
                    \<in> set (all_entries rep)
              \<and> (has_status ''error'' (verdict_of E s new_version library r)
                    \<longleftrightarrow> (\<exists>e. r = Inl e)))))"
proof (intro conjI allI impI)
  fix v n msg p'
  assume a: "encode E (build_context api_call) = Inr v \<and> py_int new_version = Some n
      \<and> index_query E (provider w) (query_of v library n) = (Inl msg, p')"
  then have q: "the_query E api_call new_version library = Some (query_of v library n)"
    by (simp add: the_query_Some)
  show "check_api E api_call old_version new_version library w
          = Inr ([(''status'', S ''error''), (''api'', S api_call), (''error'', S msg)],
                 \<lparr>provider = p', queries = queries w @ [query_of v library n]\<rparr>)"
    using a by (simp add: check_api_verdict [OF q] send_query_def verdict_of_def)
next
  let ?cache = "verdicts E api_usage new_version library (provider w)"
  assume a: "(\<exists>n. py_int new_version = Some n)
        \<and> (\<forall>s \<in> set (all_calls api_usage). \<exists>v. encode E (build_context s) = Inr v)"
  have ok: "\<forall>s \<in> set (all_calls api_usage). the_query E s new_version library \<noteq> None"
  proof
    fix s
    assume "s \<in> set (all_calls api_usage)"
    with a obtain v n where "encode E (build_context s) = Inr v" "py_int new_version = Some n"
      by blast
    then show "the_query E s new_version library \<noteq> None"
      by (simp add: the_query_Some)
  qed
  from check_project_eq [OF ok, of old_version w] obtain w' where
    c: "check_project E api_usage old_version new_version library w
        = Inr (report_of ?cache api_usage, w')"
    and qs: "queries w' = queries w @ queries_for E (all_calls api_usage) new_version library"
    by blast
  have nq: "length (queries w') = length (queries w) + length (all_calls api_usage)"
    using qs length_queries_for [OF ok] by simp
  have occ: "\<forall>(file_path, calls) \<in> set api_usage. \<forall>s \<in> set calls. \<exists>r.
                answer_to E api_usage new_version library (provider w) s = Some r
              \<and> (''file'', S file_path) # verdict_of E s new_version library r
                    \<in> set (all_entries (report_of ?cache api_usage))
              \<and> (has_status ''error'' (verdict_of E s new_version library r)
                    \<longleftrightarrow> (\<exists>e. r = Inl e))"
  proof (clarify)
    fix file_path calls s
    assume m: "(file_path, calls) \<in> set api_usage" "s \<in> set calls"
    then have "s \<in> set (all_calls api_usage)" by (auto simp: all_calls_props)
    from verdicts_lookup [OF ok this, of "provider w"] obtain r' where
      "map_of ?cache s = Some (verdict_of E s new_version library r')"
      unfolding verdicts_def by blast
    then obtain r where
      r: "answer_to E api_usage new_version library (provider w) s = Some r"
      and l: "map_of ?cache s = Some (verdict_of E s new_version library r)"
      unfolding verdicts_answer by (cases
          "answer_to E api_usage new_version library (provider w) s") auto
    have "(''file'', S file_path) # verdict_of E s new_version library r
        \<in> set (all_entries (report_of ?cache api_usage))"
      using fan_out_member [OF m l] by (rule report_of_member)
    then show "\<exists>r. answer_to E api_usage new_version library (provider w) s = Some r
              \<and> (''file'', S file_path) # verdict_of E s new_version library r
                    \<in> set (all_entries (report_of ?cache api_usage))
              \<and> (has_status ''error'' (verdict_of E s new_version library r)
                    \<longleftrightarrow> (\<exists>e. r = Inl e))"
      using r verdict_of_error by blast
  qed
  show "\<exists>rep w'.
            check_project E api_usage old_version new_version library w = Inr (rep, w')
          \<and> length (queries w') = length (queries w) + length (all_calls api_usage)
          \<and> (\<forall>(file_path, calls) \<in> set api_usage. \<forall>s \<in> set calls. \<exists>r.
                answer_to E api_usage new_version library (provider w) s = Some r
              \<and> (''file'', S file_path) # verdict_of E s new_version library r
                    \<in> set (all_entries rep)
              \<and> (has_status ''error'' (verdict_of E s new_version library r)
                    \<longleftrightarrow> (\<exists>e. r = Inl e)))"
    using c nq occ by blast
qed

lemma verdicts_two:
  "verdicts scripted_env two_files ''18'' ''react'' (r1 # r2 # rs)
     = [(''ReactDOM.render'', verdict_of scripted_env ''ReactDOM.render'' ''18'' ''react'' r1),
        (''useState'', verdict_of scripted_env ''useState'' ''18'' ''react'' r2)]"
  by (simp add: verdicts_def verdicts_from_def all_calls_two queries_for_def scripted_query)
    (simp add: scripted_env_def)

text \<open>
  The query for \<open>ReactDOM.render\<close> fails and the one for \<open>useState\<close> is answered with a
  match at 0.97: the report has the error entry of \<open>ReactDOM.render\<close> and the two
  compatible entries of \<open>useState\<close>.
\<close>

theorem C3_provider_failure_witness:
  "check_api scripted_env ''ReactDOM.render'' ''17'' ''18'' ''react''
       (script [Inl ''connection refused''])
     = Inr ([(''status'', S ''error''), (''api'', S ''ReactDOM.render''),
             (''error'', S ''connection refused'')],
            \<lparr>provider = [],
             queries = [query_of (build_context ''ReactDOM.render'') ''react'' 18]\<rparr>)
   \<and> (\<exists>rep w'. check_project scripted_env two_files ''17'' ''18'' ''react''
          (script [Inl ''connection refused'', Inr [scored (97 / 100) False]]) = Inr (rep, w')
        \<and> length (queries w') = 2
        \<and> errors rep =
            [(''file'', S ''src/index.js'') #
               [(''status'', S ''error''), (''api'', S ''ReactDOM.render''),
                (''error'', S ''connection refused'')]]
        \<and> compatible rep =
            [(''file'', S ''src/index.js'') #
               verdict_of scripted_env ''useState'' ''18'' ''react''
                 (Inr [scored (97 / 100) False]),
             (''file'', S ''src/App.js'') #
               verdict_of scripted_env ''useState'' ''18'' ''react''
                 (Inr [scored (97 / 100) False])]
        \<and> breaking_changes rep = [] \<and> minor_changes rep = [])"
proof -
  let ?w = "script [Inl ''connection refused'', Inr [scored (97 / 100) False]]"
  note t = C3_provider_failure [of scripted_env "''ReactDOM.render''" "''18''"
      "script [Inl ''connection refused'']" "''react''" "''17''" two_files]
  have 1: "check_api scripted_env ''ReactDOM.render'' ''17'' ''18'' ''react''
       (script [Inl ''connection refused''])
     = Inr ([(''status'', S ''error''), (''api'', S ''ReactDOM.render''),
             (''error'', S ''connection refused'')],
            \<lparr>provider = [],
             queries = [query_of (build_context ''ReactDOM.render'') ''react'' 18]\<rparr>)"
  proof -
    have "encode scripted_env (build_context ''ReactDOM.render'')
          = Inr (build_context ''ReactDOM.render'')
        \<and> py_int ''18'' = Some 18
        \<and> index_query scripted_env (provider (script [Inl ''connection refused'']))
            (query_of (build_context ''ReactDOM.render'') ''react'' 18)
          = (Inl ''connection refused'', [])"
      by (simp add: scripted_env_def script_def py_int_18)
    with t show ?thesis by (simp add: script_def)
  qed
  note u = C3_provider_failure [of scripted_env "''ReactDOM.render''" "''18''" ?w "''react''"
      "''17''" two_files]
  have "(\<exists>n. py_int ''18'' = Some n)
      \<and> (\<forall>s \<in> set (all_calls two_files). \<exists>v. encode scripted_env (build_context s) = Inr v)"
    by (simp add: py_int_18 scripted_env_def)
  with u obtain rep w' where
    c: "check_project scripted_env two_files ''17'' ''18'' ''react'' ?w = Inr (rep, w')"
    and n: "length (queries w') = length (queries ?w) + length (all_calls two_files)"
    by blast
  have v: "verdicts scripted_env two_files ''18'' ''react'' (provider ?w)
      = [(''ReactDOM.render'', verdict_of scripted_env ''ReactDOM.render'' ''18'' ''react''
            (Inl ''connection refused'')),
         (''useState'', verdict_of scripted_env ''useState'' ''18'' ''react''
            (Inr [scored (97 / 100) False]))]"
    by (simp add: script_def verdicts_two)
  have b: "\<And>st E s. has_status st (verdict_of E s ''18'' ''react''
        (Inr [scored (97 / 100) False])) \<longleftrightarrow> st = ''compatible''"
    by (simp add: status_scored BREAKING_THRESHOLD_def MINOR_THRESHOLD_def)
  have e: "verdict_of scripted_env ''ReactDOM.render'' ''18'' ''react''
        (Inl ''connection refused'')
      = [(''status'', S ''error''), (''api'', S ''ReactDOM.render''),
         (''error'', S ''connection refused'')]"
    by (simp add: verdict_of_def)
  have r: "rep = report_of (verdicts scripted_env two_files ''18'' ''react'' (provider ?w))
      two_files"
    using c by (rule check_project_report(1))
  have 2: "length (queries w') = 2"
    using n by (simp add: script_def all_calls_two)
  have 3: "errors rep =
            [(''file'', S ''src/index.js'') #
               [(''status'', S ''error''), (''api'', S ''ReactDOM.render''),
                (''error'', S ''connection refused'')]]"
    unfolding r v
    by (simp add: report_of_def fan_out_def two_files_def has_status_file b status_failed)
      (simp add: e)
  have 4: "compatible rep =
            [(''file'', S ''src/index.js'') #
               verdict_of scripted_env ''useState'' ''18'' ''react''
                 (Inr [scored (97 / 100) False]),
             (''file'', S ''src/App.js'') #
               verdict_of scripted_env ''useState'' ''18'' ''react''
                 (Inr [scored (97 / 100) False])]"
    unfolding r v
    by (simp add: report_of_def fan_out_def two_files_def has_status_file b status_failed)
  have 5: "breaking_changes rep = []" "minor_changes rep = []"
    unfolding r v
    by (simp_all add: report_of_def fan_out_def two_files_def has_status_file b status_failed)
  show ?thesis using 1 c 2 3 4 5 by blast
qed

subsection \<open>The threshold of the command line\<close>

lemma verdicts_one:
  "verdicts scripted_env one_file ''18'' ''react'' (r # rs)
     = [(''useState'', verdict_of scripted_env ''useState'' ''18'' ''react'' r)]"
proof -
  have "all_calls one_file = [''useState'']"
    by (simp add: all_calls_def one_file_def)
  then show ?thesis
    by (simp add: verdicts_def verdicts_from_def queries_for_def scripted_query)
      (simp add: scripted_env_def)
qed

text \<open>
  C7 (the code departs from it). \<open>main\<close> parses \<open>--threshold\<close> and never hands it to
  the checker, which compares with its own constant: the report does not depend on the
  argument. With \<open>--threshold 0.5\<close> a best match at 0.7 is above the threshold asked for
  and still reported as a breaking change.
\<close>

theorem C7_threshold_ignored:
  "main_check E (a\<lparr>arg_threshold := t\<rparr>) api_usage w = main_check E a api_usage w
   \<and> (\<exists>rep w'. main_check scripted_env (args_with_threshold (1 / 2)) one_file
          (script [Inr [scored (7 / 10) False]]) = Inr (rep, w')
        \<and> breaking_changes rep =
            [(''file'', S ''src/App.js'') #
               verdict_of scripted_env ''useState'' ''18'' ''react''
                 (Inr [scored (7 / 10) False])]
        \<and> minor_changes rep = []
        \<and> summary rep = \<lparr>total_apis = 1, breaking = 1, minor = 0, compatible_count = 0,
             error_count = 0\<rparr>)"
proof -
  let ?w = "script [Inr [scored (7 / 10) False]]"
  have m: "main_check scripted_env (args_with_threshold (1 / 2)) one_file ?w
      = check_project scripted_env one_file ''17'' ''18'' ''react'' ?w"
    by (simp add: main_check_def args_with_threshold_def)
  obtain rep w' where
    c: "check_project scripted_env one_file ''17'' ''18'' ''react'' ?w = Inr (rep, w')"
    using check_project_eq [OF scripted_ok] by blast
  have v: "verdicts scripted_env one_file ''18'' ''react'' (provider ?w)
      = [(''useState'', verdict_of scripted_env ''useState'' ''18'' ''react''
            (Inr [scored (7 / 10) False]))]"
    by (simp add: script_def verdicts_one)
  have b: "\<And>st E s. has_status st (verdict_of E s ''18'' ''react''
        (Inr [scored (7 / 10) False])) \<longleftrightarrow> st = ''breaking_change''"
    by (simp add: status_scored BREAKING_THRESHOLD_def)
  have r: "rep = report_of (verdicts scripted_env one_file ''18'' ''react'' (provider ?w))
      one_file"
    using c by (rule check_project_report(1))
  have "breaking_changes rep =
            [(''file'', S ''src/App.js'') #
               verdict_of scripted_env ''useState'' ''18'' ''react''
                 (Inr [scored (7 / 10) False])]"
    "minor_changes rep = []"
    "summary rep = \<lparr>total_apis = 1, breaking = 1, minor = 0, compatible_count = 0,
             error_count = 0\<rparr>"
    unfolding r v
    by (simp_all add: report_of_def fan_out_def one_file_def has_status_file b)
  then show ?thesis
    using c m by (simp add: main_check_def)
qed

section \<open>Properties of the analyzer\<close>

subsection \<open>Reading\<close>




subsection \<open>What the walk can raise\<close>

lemma dict_get_error: "dict_get x k d = Inl e \<Longrightarrow> walk_error e"
  by (cases x) auto

lemma in_names_error: "in_names x ns = Inl e \<Longrightarrow> walk_error e"
  by (cases x) auto

lemma dict_elements_error: "dict_elements x = Inl e \<Longrightarrow> walk_error e"
  by (cases x) auto

lemmas walk_errors = dict_get_error in_names_error dict_elements_error

lemma member_expression_error: "member_expression node acc = Inl e \<Longrightarrow> walk_error e"
  unfolding member_expression_def
  by (auto split: sum.splits if_splits json.splits dest: walk_errors)

lemma call_expression_error: "call_expression node acc = Inl e \<Longrightarrow> walk_error e"
  unfolding call_expression_def
  by (auto split: sum.splits if_splits json.splits dest: walk_errors)

lemma class_declaration_error: "class_declaration node acc = Inl e \<Longrightarrow> walk_error e"
  unfolding class_declaration_def
  by (auto split: sum.splits if_splits json.splits dest: walk_errors)

lemma jsx_member_expression_error: "jsx_member_expression node acc = Inl e \<Longrightarrow> walk_error e"
  unfolding jsx_member_expression_def
  by (auto split: sum.splits if_splits json.splits dest: walk_errors)

lemma import_specifier_error: "import_specifier spec acc = Inl e \<Longrightarrow> walk_error e"
  unfolding import_specifier_def
  by (auto split: sum.splits if_splits json.splits dest: walk_errors)

lemma import_specifiers_error: "import_specifiers specs acc = Inl e \<Longrightarrow> walk_error e"
  by (induction specs arbitrary: acc)
    (auto split: sum.splits dest: import_specifier_error)

lemma import_declaration_error: "import_declaration node acc = Inl e \<Longrightarrow> walk_error e"
  unfolding import_declaration_def
  by (auto split: sum.splits dest: walk_errors import_specifiers_error)

lemma visit_error: "visit node acc = Inl e \<Longrightarrow> walk_error e"
  unfolding visit_def Let_def
  by (auto split: if_splits dest: member_expression_error call_expression_error
      class_declaration_error jsx_member_expression_error import_declaration_error)

lemma walk_error:
  "walk x acc = Inl e \<Longrightarrow> walk_error e"
  "walk_items xs acc = Inl e \<Longrightarrow> walk_error e"
  "walk_values kvs acc = Inl e \<Longrightarrow> walk_error e"
proof (induction x acc and xs acc and kvs acc rule: walk_walk_items_walk_values.induct)
  case (1 node api_calls)
  then show ?case by (auto split: sum.splits dest: visit_error)
next
  case (8 x xs api_calls)
  then show ?case by (auto split: sum.splits)
next
  case (10 k v kvs api_calls)
  then show ?case by (auto split: sum.splits if_splits)
qed auto

subsection \<open>What the extractors return\<close>

lemma lexical_symbols_eq:
  "lexical_symbols =
     [''ReactDOM.render'', ''ReactDOM.hydrate'', ''ReactDOM.unmountComponentAtNode'',
      ''ReactDOM.findDOMNode'', ''ReactDOM.createPortal'', ''ReactDOM.flushSync'',
      ''React.createElement'', ''React.cloneElement'', ''React.createRef'',
      ''React.forwardRef'', ''React.memo'', ''React.lazy'', ''React.createContext'',
      ''React.isValidElement'', ''React.startTransition'',
      ''useState'', ''useEffect'', ''useContext'', ''useReducer'', ''useCallback'',
      ''useMemo'', ''useRef'', ''useImperativeHandle'', ''useLayoutEffect'',
      ''useDebugValue'', ''useId'', ''useTransition'', ''useDeferredValue'',
      ''useInsertionEffect'', ''useSyncExternalStore'',
      ''createRoot'', ''hydrateRoot'',
      ''React.Component'', ''React.PureComponent'',
      ''React.Fragment'', ''React.StrictMode'', ''React.Suspense'', ''React.Profiler'',
      ''React.Children.map'']"
  by (simp add: lexical_symbols_def reactdom_pattern_def react_pattern_def hooks_pattern_def
      new_api_pattern_def class_pattern_def component_pattern_def)

lemma known_insert:
  assumes "known_calls acc" and "s \<in> set lexical_symbols"
  shows "known_calls (List.insert s acc)"
  using assms by (auto simp: known_calls_def)

lemma hooks_known: "s \<in> set REACT_HOOKS \<Longrightarrow> s \<in> set lexical_symbols"
  unfolding lexical_symbols_eq REACT_HOOKS_def by auto

lemma imports_known: "s \<in> set REACT_IMPORTS \<Longrightarrow> s \<in> set lexical_symbols"
  unfolding lexical_symbols_eq REACT_IMPORTS_def by auto

lemma components_known: "s \<in> set REACT_COMPONENT_APIS \<Longrightarrow> s \<in> set lexical_symbols"
  unfolding lexical_symbols_eq REACT_COMPONENT_APIS_def by auto

lemma base_classes_known:
  "p \<in> set [''Component'', ''PureComponent''] \<Longrightarrow> ''React.'' @ p \<in> set lexical_symbols"
  unfolding lexical_symbols_eq by auto

lemma children_known: "''React.Children.map'' \<in> set lexical_symbols"
  unfolding lexical_symbols_eq by simp

lemma members_known:
  assumes "owner \<in> set (map fst REACT_MEMBER_APIS)"
    and "p \<in> set (case map_of REACT_MEMBER_APIS owner of Some ms \<Rightarrow> ms | None \<Rightarrow> [])"
  shows "owner @ ''.'' @ p \<in> set lexical_symbols"
proof -
  consider "owner = ''ReactDOM''" | "owner = ''React''"
    using assms(1) by (auto simp: REACT_MEMBER_APIS_def)
  then show ?thesis
  proof cases
    case 1
    then have "p \<in> set [''render'', ''hydrate'', ''unmountComponentAtNode'',
         ''findDOMNode'', ''createPortal'', ''flushSync'']"
      using assms(2) by (simp add: REACT_MEMBER_APIS_def)
    then show ?thesis unfolding 1 lexical_symbols_eq by auto
  next
    case 2
    then have "p \<in> set [''createElement'', ''cloneElement'', ''createRef'',
         ''forwardRef'', ''memo'', ''lazy'', ''createContext'',
         ''isValidElement'', ''startTransition'']"
      using assms(2) by (simp add: REACT_MEMBER_APIS_def)
    then show ?thesis unfolding 2 lexical_symbols_eq by auto
  qed
qed

lemma in_names_True: "in_names x ns = Inr True \<Longrightarrow> \<exists>s. x = JStr s \<and> s \<in> set ns"
  by (cases x) auto

lemma known_insert_iff:
  "known_calls acc \<Longrightarrow> known_calls (List.insert s acc) \<longleftrightarrow> s \<in> set lexical_symbols"
  by (auto simp: known_calls_def)

lemma base_class_symbols:
  "''React.Component'' \<in> set lexical_symbols" "''React.PureComponent'' \<in> set lexical_symbols"
  unfolding lexical_symbols_eq by simp_all

lemma members_known_map_of:
  assumes "Some ms = map_of REACT_MEMBER_APIS owner" and "p \<in> set ms"
  shows "owner @ CHR ''.'' # p \<in> set lexical_symbols"
proof -
  have "owner \<in> set (map fst REACT_MEMBER_APIS)"
    using assms(1) by (metis map_of_eq_None_iff option.distinct(1) set_map)
  moreover have "p \<in> set (case map_of REACT_MEMBER_APIS owner of Some ms \<Rightarrow> ms | None \<Rightarrow> [])"
    using assms by (simp flip: assms(1))
  ultimately show ?thesis using members_known by fastforce
qed

lemma children_no_member:
  assumes "Some ms = map_of REACT_MEMBER_APIS ''React''"
  shows "''Children'' \<notin> set ms"
  using assms by (simp add: REACT_MEMBER_APIS_def)

lemma member_expression_known:
  assumes "member_expression node acc = Inr acc'" and "known_calls acc"
  shows "known_calls acc'"
  using assms unfolding member_expression_def
  by (auto split: sum.splits json.splits if_splits
      simp: known_insert_iff children_known members_known_map_of children_no_member)

lemma call_expression_known:
  assumes "call_expression node acc = Inr acc'" and "known_calls acc"
  shows "known_calls acc'"
  using assms unfolding call_expression_def
  by (auto split: sum.splits json.splits simp: Let_def known_insert_iff
      dest: hooks_known imports_known)

lemma class_declaration_known:
  assumes "class_declaration node acc = Inr acc'" and "known_calls acc"
  shows "known_calls acc'"
  using assms unfolding class_declaration_def
  by (auto split: sum.splits if_splits json.splits simp: known_insert_iff base_class_symbols)

lemma jsx_member_expression_known:
  assumes "jsx_member_expression node acc = Inr acc'" and "known_calls acc"
  shows "known_calls acc'"
  using assms unfolding jsx_member_expression_def
  by (auto split: sum.splits if_splits json.splits simp: known_insert_iff
      dest: components_known)

lemma import_specifier_known:
  assumes "import_specifier spec acc = Inr acc'" and "known_calls acc"
  shows "known_calls acc'"
  using assms unfolding import_specifier_def
  by (auto split: sum.splits json.splits if_splits simp: Let_def known_insert_iff
      dest: hooks_known imports_known)

lemma import_specifiers_known:
  assumes "import_specifiers specs acc = Inr acc'" and "known_calls acc"
  shows "known_calls acc'"
  using assms
  by (induction specs arbitrary: acc)
    (auto split: sum.splits dest: import_specifier_known)

lemma import_declaration_known:
  assumes "import_declaration node acc = Inr acc'" and "known_calls acc"
  shows "known_calls acc'"
  using assms unfolding import_declaration_def
  by (auto split: sum.splits dest: import_specifiers_known)

lemma visit_known:
  assumes "visit node acc = Inr acc'" and "known_calls acc"
  shows "known_calls acc'"
  using assms unfolding visit_def Let_def
  by (auto split: if_splits dest: member_expression_known call_expression_known
      class_declaration_known jsx_member_expression_known import_declaration_known)

lemma walk_known:
  "walk x acc = Inr acc' \<Longrightarrow> known_calls acc \<Longrightarrow> known_calls acc'"
  "walk_items xs acc = Inr acc' \<Longrightarrow> known_calls acc \<Longrightarrow> known_calls acc'"
  "walk_values kvs acc = Inr acc' \<Longrightarrow> known_calls acc \<Longrightarrow> known_calls acc'"
proof (induction x acc and xs acc and kvs acc arbitrary: acc' and acc' and acc'
    rule: walk_walk_items_walk_values.induct)
  case (1 node api_calls)
  then show ?case by (auto split: sum.splits dest: visit_known)
next
  case (8 x xs api_calls)
  then show ?case by (auto split: sum.splits)
next
  case (10 k v kvs api_calls)
  then show ?case by (auto split: sum.splits if_splits)
qed auto

lemma match_item_group:
  assumes "(p, r, Some g) \<in> set (match_item alnum i (prev, t, g0))"
  shows "g0 = Some g \<or> g \<in> set (groups_of [i])"
  using assms by (cases i) (auto split: option.splits list.splits if_splits simp: Let_def)

lemma groups_of_Cons: "set (groups_of (i # is)) = set (groups_of [i]) \<union> set (groups_of is)"
  by (cases i) auto

lemma match_seq_group:
  assumes "(p, r, Some g) \<in> set (match_seq alnum pat st)"
  shows "snd (snd st) = Some g \<or> g \<in> set (groups_of pat)"
  using assms
proof (induction pat arbitrary: st)
  case Nil
  then show ?case by auto
next
  case (Cons i "is")
  obtain prev t g0 where st: "st = (prev, t, g0)" by (cases st)
  from Cons.prems obtain st' where
    1: "st' \<in> set (match_item alnum i (prev, t, g0))"
    and 2: "(p, r, Some g) \<in> set (match_seq alnum is st')"
    by (auto simp: st)
  obtain p' t' g' where st': "st' = (p', t', g')" by (cases st')
  from Cons.IH [OF 2] have "g' = Some g \<or> g \<in> set (groups_of is)"
    by (simp add: st')
  then show ?case
  proof
    assume "g' = Some g"
    then have "g0 = Some g \<or> g \<in> set (groups_of [i])"
      using 1 match_item_group unfolding st' by blast
    then show ?thesis by (auto simp: st groups_of_Cons [of i "is"])
  next
    assume "g \<in> set (groups_of is)"
    then show ?thesis by (simp add: groups_of_Cons [of i "is"])
  qed
qed

lemma match_at_group:
  assumes "match_at alnum pat prev t = Some (Some g, n)"
  shows "g \<in> set (groups_of pat)"
proof -
  from assms obtain p r rest where
    "match_seq alnum pat (prev, t, None) = (p, r, Some g) # rest"
    by (auto simp: match_at_def split: list.splits)
  then have "(p, r, Some g) \<in> set (match_seq alnum pat (prev, t, None))" by simp
  from match_seq_group [OF this] show ?thesis by simp
qed

lemma finditer_Nil:
  "finditer alnum pat prev k [] =
     (case match_at alnum pat prev [] of
        Some (Some g, n) \<Rightarrow> if k = 0 then [g] else []
      | _ \<Rightarrow> [])"
  by (subst finditer.simps) (simp split: option.splits prod.splits)

lemma finditer_Cons:
  "finditer alnum pat prev k (x # t) =
     (if k \<noteq> 0 then finditer alnum pat (Some x) (k - 1) t
      else (case match_at alnum pat prev (x # t) of
              Some (Some g, n) \<Rightarrow> g # finditer alnum pat (Some x) (n - 1) t
            | _ \<Rightarrow> finditer alnum pat (Some x) 0 t))"
  by (subst finditer.simps) (simp split: option.splits prod.splits)

lemma finditer_member:
  "g \<in> set (finditer alnum pat prev k t) \<Longrightarrow> g \<in> set (groups_of pat)"
proof (induction t arbitrary: prev k)
  case Nil
  then obtain n where "match_at alnum pat prev [] = Some (Some g, n)"
    unfolding finditer_Nil
    by (cases "match_at alnum pat prev []") (auto split: option.splits if_splits)
  then show ?case by (rule match_at_group)
next
  case (Cons x t)
  show ?case
  proof (cases "k = 0")
    case False
    then have "g \<in> set (finditer alnum pat (Some x) (k - 1) t)"
      using Cons.prems unfolding finditer_Cons [of alnum pat prev k x t] by simp
    then show ?thesis by (rule Cons.IH)
  next
    case True
    show ?thesis
    proof (cases "match_at alnum pat prev (x # t)")
      case None
      then have "g \<in> set (finditer alnum pat (Some x) 0 t)"
        using Cons.prems True unfolding finditer_Cons [of alnum pat prev k x t] by simp
      then show ?thesis by (rule Cons.IH)
    next
      case (Some m)
      obtain go n where m: "m = (go, n)" by (cases m)
      show ?thesis
      proof (cases go)
        case None
        then have "g \<in> set (finditer alnum pat (Some x) 0 t)"
          using Cons.prems True Some m
          unfolding finditer_Cons [of alnum pat prev k x t] by simp
        then show ?thesis by (rule Cons.IH)
      next
        case (Some g')
        have g': "g' \<in> set (groups_of pat)"
          using \<open>match_at alnum pat prev (x # t) = Some m\<close> m Some match_at_group by blast
        have "g = g' \<or> g \<in> set (finditer alnum pat (Some x) (n - 1) t)"
          using Cons.prems True \<open>match_at alnum pat prev (x # t) = Some m\<close> m Some
          unfolding finditer_Cons [of alnum pat prev k x t] by simp
        then show ?thesis using g' Cons.IH by blast
      qed
    qed
  qed
qed

lemma finditer_groups: "set (finditer alnum pat prev k t) \<subseteq> set (groups_of pat)"
  using finditer_member by blast

lemma add_all_known:
  assumes "known_calls acc" and "\<forall>g \<in> set gs. prefix @ g \<in> set lexical_symbols"
  shows "known_calls (add_all prefix gs acc)"
  using assms unfolding add_all_def
  by (induction gs arbitrary: acc) (auto simp: known_insert_iff)

lemma pattern_symbols:
  "\<forall>g \<in> set (groups_of reactdom_pattern). ''ReactDOM.'' @ g \<in> set lexical_symbols"
  "\<forall>g \<in> set (groups_of react_pattern). ''React.'' @ g \<in> set lexical_symbols"
  "\<forall>g \<in> set (groups_of hooks_pattern). [] @ g \<in> set lexical_symbols"
  "\<forall>g \<in> set (groups_of new_api_pattern). [] @ g \<in> set lexical_symbols"
  "\<forall>g \<in> set (groups_of class_pattern). ''React.'' @ g \<in> set lexical_symbols"
  "\<forall>g \<in> set (groups_of component_pattern). ''React.'' @ g \<in> set lexical_symbols"
  by (auto simp: lexical_symbols_def)

lemma finditer_known:
  assumes "known_calls acc" and "\<forall>g \<in> set (groups_of pat). prefix @ g \<in> set lexical_symbols"
  shows "known_calls (add_all prefix (finditer alnum pat prev k t) acc)"
  using assms(1)
proof (rule add_all_known)
  show "\<forall>g \<in> set (finditer alnum pat prev k t). prefix @ g \<in> set lexical_symbols"
    using assms(2) finditer_groups by blast
qed

lemma regex_calls_known:
  "sorted (regex_calls alnum code) \<and> distinct (regex_calls alnum code)
   \<and> set (regex_calls alnum code) \<subseteq> set lexical_symbols"
proof -
  have 0: "known_calls []" by (simp add: known_calls_def)
  note 1 = finditer_known [OF 0 pattern_symbols(1), of alnum None 0 code]
  note 2 = finditer_known [OF 1 pattern_symbols(2), of alnum None 0 code]
  note 3 = finditer_known [OF 2 pattern_symbols(3), of alnum None 0 code]
  note 4 = finditer_known [OF 3 pattern_symbols(4), of alnum None 0 code]
  note 5 = finditer_known [OF 4 pattern_symbols(5), of alnum None 0 code]
  note 6 = finditer_known [OF 5 pattern_symbols(6), of alnum None 0 code]
  let ?acc = "add_all ''React.'' (finditer alnum component_pattern None 0 code)
         (add_all ''React.'' (finditer alnum class_pattern None 0 code)
           (add_all [] (finditer alnum new_api_pattern None 0 code)
             (add_all [] (finditer alnum hooks_pattern None 0 code)
               (add_all ''React.'' (finditer alnum react_pattern None 0 code)
                 (add_all ''ReactDOM.''
                   (finditer alnum reactdom_pattern None 0 code) [])))))"
  let ?final = "if re_search alnum children_pattern None code
      then List.insert ''React.Children.map'' ?acc else ?acc"
  have "known_calls ?final"
    using 6 by (simp add: known_insert_iff children_known)
  moreover have "regex_calls alnum code = sort ?final"
    by (simp add: regex_calls_def Let_def)
  ultimately show ?thesis by (simp add: known_calls_def)
qed

lemma extract_ast_known:
  assumes "extract_api_calls_ast env file_path = Inr calls"
  shows "sorted calls \<and> distinct calls \<and> set calls \<subseteq> set lexical_symbols"
proof -
  have r: "\<And>c. extract_api_calls_regex env file_path = Inr c
      \<Longrightarrow> sorted c \<and> distinct c \<and> set c \<subseteq> set lexical_symbols"
    using regex_calls_known
    by (auto simp: extract_api_calls_regex_def split: sum.splits)
  have w: "\<And>ast acc. walk ast [] = Inr acc
      \<Longrightarrow> sorted (sort acc) \<and> distinct (sort acc) \<and> set (sort acc) \<subseteq> set lexical_symbols"
  proof -
    fix ast acc
    assume "walk ast [] = Inr acc"
    then have "known_calls acc"
      by (rule walk_known(1)) (simp add: known_calls_def)
    then show "sorted (sort acc) \<and> distinct (sort acc) \<and> set (sort acc) \<subseteq> set lexical_symbols"
      by (simp add: known_calls_def)
  qed
  show ?thesis
  proof (cases "extract_api_calls_regex env file_path = Inr calls")
    case True
    then show ?thesis by (rule r)
  next
    case False
    then obtain ast acc where "walk ast [] = Inr acc" "calls = sort acc"
      using assms unfolding extract_api_calls_ast_def
      by (auto split: if_splits sum.splits option.splits)
    then show ?thesis using w by blast
  qed
qed

subsection \<open>The scan\<close>

lemma set_dict_set: "set (dict_set k v xs) \<subseteq> insert (k, v) (set xs)"
  by (induction xs) auto

lemma scan_files_inv:
  assumes "\<forall>(f, calls) \<in> set (fst st). P f calls" and "\<forall>(f, r) \<in> set (snd st). Q f r"
    and "\<And>f calls. extract_api_calls_ast env f = Inr calls \<Longrightarrow> calls \<noteq> [] \<Longrightarrow> P f calls"
    and "\<And>f e. extract_api_calls_ast env f = Inl e \<Longrightarrow> Q f (str_exn e)"
  shows "(\<forall>(f, calls) \<in> set (fst (scan_files env root_dir names st)). P f calls)
    \<and> (\<forall>(f, r) \<in> set (snd (scan_files env root_dir names st)). Q f r)"
  using assms(1,2)
proof (induction names arbitrary: st)
  case Nil
  then show ?case by simp
next
  case (Cons name names)
  obtain results skipped where st: "st = (results, skipped)" by (cases st)
  let ?st' = "if lower (splitext_ext name) \<in> set supported_extensions then
          (let file_path = path_join root_dir name in
           case extract_api_calls_ast env file_path of
             Inr calls \<Rightarrow>
               if calls \<noteq> [] then (dict_set file_path calls results, skipped)
               else (results, skipped)
           | Inl e \<Rightarrow> (results, skipped @ [(file_path, str_exn e)]))
        else (results, skipped)"
  have 1: "\<forall>(f, calls) \<in> set (fst ?st'). P f calls"
  proof (clarify)
    fix f calls
    assume m: "(f, calls) \<in> set (fst ?st')"
    show "P f calls"
    proof (cases "(f, calls) \<in> set results")
      case True
      then show ?thesis using Cons.prems(1) by (auto simp: st)
    next
      case False
      then obtain c where
        "extract_api_calls_ast env (path_join root_dir name) = Inr c" "c \<noteq> []"
        and "(f, calls) \<in> set (dict_set (path_join root_dir name) c results)"
        using m by (auto simp: Let_def split: sum.splits if_splits)
      then have "f = path_join root_dir name" "calls = c"
        using False set_dict_set [of "path_join root_dir name" c results] by auto
      then show ?thesis
        using \<open>extract_api_calls_ast env (path_join root_dir name) = Inr c\<close>
          \<open>c \<noteq> []\<close> assms(3) by blast
    qed
  qed
  have 2: "\<forall>(f, r) \<in> set (snd ?st'). Q f r"
    using Cons.prems(2) assms(4)
    by (auto simp: st Let_def split: sum.splits)
  have "scan_files env root_dir (name # names) st = scan_files env root_dir names ?st'"
    by (simp add: st)
  then show ?case using Cons.IH [OF 1 2] by simp
qed

lemma scan_tree_inv:
  "(\<And>f calls. extract_api_calls_ast env f = Inr calls \<Longrightarrow> calls \<noteq> [] \<Longrightarrow> P f calls)
    \<Longrightarrow> (\<And>f e. extract_api_calls_ast env f = Inl e \<Longrightarrow> Q f (str_exn e))
    \<Longrightarrow> (\<forall>(f, calls) \<in> set (fst st). P f calls) \<Longrightarrow> (\<forall>(f, r) \<in> set (snd st). Q f r)
    \<Longrightarrow> (\<forall>(f, calls) \<in> set (fst (scan_tree env root_dir t st)). P f calls)
        \<and> (\<forall>(f, r) \<in> set (snd (scan_tree env root_dir t st)). Q f r)"
  "(\<And>f calls. extract_api_calls_ast env f = Inr calls \<Longrightarrow> calls \<noteq> [] \<Longrightarrow> P f calls)
    \<Longrightarrow> (\<And>f e. extract_api_calls_ast env f = Inl e \<Longrightarrow> Q f (str_exn e))
    \<Longrightarrow> (\<forall>(f, calls) \<in> set (fst st). P f calls) \<Longrightarrow> (\<forall>(f, r) \<in> set (snd st). Q f r)
    \<Longrightarrow> (\<forall>(f, calls) \<in> set (fst (scan_dirs env root_dir ds st)). P f calls)
        \<and> (\<forall>(f, r) \<in> set (snd (scan_dirs env root_dir ds st)). Q f r)"
proof (induction env root_dir t st and env root_dir ds st rule: scan_tree_scan_dirs.induct)
  case (1 env root_dir dirs files st)
  have "(\<forall>(f, calls) \<in> set (fst (scan_files env root_dir files st)). P f calls)
      \<and> (\<forall>(f, r) \<in> set (snd (scan_files env root_dir files st)). Q f r)"
    using "1.prems" by (intro scan_files_inv) auto
  then show ?case using "1.IH" "1.prems"(1,2) by simp
next
  case (2 env root_dir st)
  then show ?case by simp
next
  case (3 env root_dir d t dirs st)
  show ?case
  proof (cases "d \<in> set skip_dirs")
    case True
    then show ?thesis using "3.IH"(2) "3.prems" by simp
  next
    case False
    have "(\<forall>(f, calls) \<in> set (fst (scan_tree env (path_join root_dir d) t st)). P f calls)
        \<and> (\<forall>(f, r) \<in> set (snd (scan_tree env (path_join root_dir d) t st)). Q f r)"
      using "3.IH"(1) [OF False] "3.prems" by blast
    then show ?thesis using "3.IH"(2) "3.prems"(1,2) False by simp
  qed
qed

lemma scan_results:
  assumes "(file_path, calls) \<in> set (scan_project env t project_path)"
  shows "extract_api_calls_ast env file_path = Inr calls \<and> calls \<noteq> []"
proof -
  have "(\<forall>(f, calls) \<in> set (fst (scan_tree env project_path t ([], []))).
          extract_api_calls_ast env f = Inr calls \<and> calls \<noteq> [])
      \<and> (\<forall>(f, r) \<in> set (snd (scan_tree env project_path t ([], []))). True)"
    by (rule scan_tree_inv(1)) auto
  then show ?thesis using assms by (auto simp: scan_project_def)
qed

lemma scan_skips:
  assumes "(file_path, reason) \<in> set (scan_skipped env t project_path)"
  shows "\<exists>e. extract_api_calls_ast env file_path = Inl e \<and> reason = str_exn e"
proof -
  have "(\<forall>(f, calls) \<in> set (fst (scan_tree env project_path t ([], []))). True)
      \<and> (\<forall>(f, r) \<in> set (snd (scan_tree env project_path t ([], []))).
            \<exists>e. extract_api_calls_ast env f = Inl e \<and> r = str_exn e)"
    by (rule scan_tree_inv(1)) auto
  then show ?thesis using assms by (auto simp: scan_skipped_def)
qed

subsection \<open>Claims about the analyzer\<close>

lemma sample_scan:
  "scan_tree sample_env ''src'' sample_tree ([], []) =
     ([(''src/h.js'', [''React.createElement'']), (''src/latin1.js'', [''useState''])],
      [(''src/gone.js'', ''[Errno 2] No such file or directory'')])"
  by code_simp

lemma sample_plain: "extract_api_calls_ast sample_env ''src/plain.js'' = Inr []"
  by code_simp

text \<open>
  C9. Every file of the mapping a scan returns has the list its extraction returned, and
  that list is not empty, sorted in the order of strings and free of repetitions. A file
  whose extraction returns the empty list is neither in the mapping nor among the skipped
  files. Both extractors return sorted lists without repetition.
\<close>

theorem C9_scan_result_lists:
  "(\<forall>(file_path, calls) \<in> set (scan_project env t project_path).
       calls \<noteq> [] \<and> sorted calls \<and> distinct calls
       \<and> extract_api_calls_ast env file_path = Inr calls)
   \<and> (\<forall>file_path. extract_api_calls_ast env file_path = Inr [] \<longrightarrow>
         file_path \<notin> fst ` set (scan_project env t project_path)
         \<and> file_path \<notin> fst ` set (scan_skipped env t project_path))
   \<and> (\<forall>file_path calls. extract_api_calls_regex env file_path = Inr calls \<longrightarrow>
         sorted calls \<and> distinct calls)
   \<and> (\<forall>file_path calls. extract_api_calls_ast env file_path = Inr calls \<longrightarrow>
         sorted calls \<and> distinct calls)"
proof (intro conjI)
  show "\<forall>(file_path, calls) \<in> set (scan_project env t project_path).
       calls \<noteq> [] \<and> sorted calls \<and> distinct calls
       \<and> extract_api_calls_ast env file_path = Inr calls"
    using scan_results extract_ast_known by blast
  show "\<forall>file_path. extract_api_calls_ast env file_path = Inr [] \<longrightarrow>
         file_path \<notin> fst ` set (scan_project env t project_path)
         \<and> file_path \<notin> fst ` set (scan_skipped env t project_path)"
  proof (intro allI impI conjI)
    fix file_path
    assume e: "extract_api_calls_ast env file_path = Inr []"
    show "file_path \<notin> fst ` set (scan_project env t project_path)"
    proof
      assume "file_path \<in> fst ` set (scan_project env t project_path)"
      then obtain calls where "(file_path, calls) \<in> set (scan_project env t project_path)"
        by auto
      from scan_results [OF this] e show False by auto
    qed
    show "file_path \<notin> fst ` set (scan_skipped env t project_path)"
    proof
      assume "file_path \<in> fst ` set (scan_skipped env t project_path)"
      then obtain reason where "(file_path, reason) \<in> set (scan_skipped env t project_path)"
        by auto
      from scan_skips [OF this] e show False by simp
    qed
  qed
  show "\<forall>file_path calls. extract_api_calls_regex env file_path = Inr calls \<longrightarrow>
         sorted calls \<and> distinct calls"
    using regex_calls_known
    by (auto simp: extract_api_calls_regex_def split: sum.splits)
  show "\<forall>file_path calls. extract_api_calls_ast env file_path = Inr calls \<longrightarrow>
         sorted calls \<and> distinct calls"
    using extract_ast_known by blast
qed

text \<open>
  The example project: two files are in the mapping, each with its sorted list, and
  \<open>src/plain.js\<close>, in which nothing is found, is in neither list.
\<close>

theorem C9_scan_result_lists_witness:
  "scan_project sample_env sample_tree ''src'' =
     [(''src/h.js'', [''React.createElement'']), (''src/latin1.js'', [''useState''])]
   \<and> extract_api_calls_ast sample_env ''src/latin1.js'' = Inr [''useState'']
   \<and> extract_api_calls_ast sample_env ''src/plain.js'' = Inr []
   \<and> ''src/plain.js'' \<notin> fst ` set (scan_project sample_env sample_tree ''src'')
   \<and> ''src/plain.js'' \<notin> fst ` set (scan_skipped sample_env sample_tree ''src'')"
proof -
  note t = C9_scan_result_lists [of sample_env sample_tree "''src''"]
  have s: "scan_project sample_env sample_tree ''src'' =
     [(''src/h.js'', [''React.createElement'']), (''src/latin1.js'', [''useState''])]"
    by (simp add: scan_project_def sample_scan)
  have "(''src/latin1.js'', [''useState'']) \<in> set (scan_project sample_env sample_tree ''src'')"
    by (simp add: s)
  with t have l: "extract_api_calls_ast sample_env ''src/latin1.js'' = Inr [''useState'']"
    by blast
  from t sample_plain
  have "''src/plain.js'' \<notin> fst ` set (scan_project sample_env sample_tree ''src'')"
    "''src/plain.js'' \<notin> fst ` set (scan_skipped sample_env sample_tree ''src'')"
    by blast+
  then show ?thesis using s l sample_plain by blast
qed

text \<open>
  C6 (the code departs from it). \<open>scan_project\<close> appends a failed file to its local list
  \<open>skipped\<close> and returns \<open>results\<close> alone. In the example project \<open>src/gone.js\<close> cannot
  be opened: it is recorded in \<open>skipped\<close>, and what the caller gets is what it would get
  if the file were not there.
\<close>

theorem C6_skipped_is_dropped:
  "scan_skipped sample_env sample_tree ''src''
     = [(''src/gone.js'', ''[Errno 2] No such file or directory'')]
   \<and> scan_project sample_env sample_tree ''src''
     = [(''src/h.js'', [''React.createElement'']), (''src/latin1.js'', [''useState''])]
   \<and> scan_project sample_env (Tree [] [''h.js'', ''latin1.js'', ''plain.js'']) ''src''
     = scan_project sample_env sample_tree ''src''"
proof -
  have "scan_tree sample_env ''src'' (Tree [] [''h.js'', ''latin1.js'', ''plain.js'']) ([], [])
      = ([(''src/h.js'', [''React.createElement'']), (''src/latin1.js'', [''useState''])], [])"
    by code_simp
  then show ?thesis
    by (simp add: scan_project_def scan_skipped_def sample_scan)
qed
















end
